theory Spec2Isabelle
  imports Complex_Main "HOL-Library.Multiset"
begin

section \<open>Numbers and vectors\<close>

text \<open>
  The physics core computes on JavaScript numbers. They are modelled as mathematical
  reals, and the geometry of the collision pipeline is stated in the exact arithmetic the
  code writes down; infinities and NaN are outside this development. Where rounding
  decides what the code does, the number of fixed steps of the integrator and the
  emission of a record with overlap zero, the accumulator and the narrow phase are
  modelled a second time in double arithmetic (see \<open>to_double\<close> below).
  Cell indices, which the code obtains from \<open>Math.floor\<close> and \<open>Math.ceil\<close>, are integers.
\<close>

text \<open>\<open>Point3D\<close> of physics.ts: a plain triple of numbers.\<close>

datatype Point3D = Point3D (px: real) (py: real) (pz: real)

text \<open>
  \<open>THREE.Vector3\<close> with the operations of the three.js library that the physics core
  calls. \<open>normalize\<close> is \<open>divideScalar(length() || 1)\<close> in the library, and
  \<open>divideScalar(s)\<close> is \<open>multiplyScalar(1 / s)\<close>: a vector of length zero is
  divided by 1.
\<close>

datatype Vector3 = Vector3 (vx: real) (vy: real) (vz: real)

definition add :: "Vector3 \<Rightarrow> Vector3 \<Rightarrow> Vector3" where
  "add v w = Vector3 (vx v + vx w) (vy v + vy w) (vz v + vz w)"

definition multiplyScalar :: "Vector3 \<Rightarrow> real \<Rightarrow> Vector3" where
  "multiplyScalar v s = Vector3 (vx v * s) (vy v * s) (vz v * s)"

definition negate :: "Vector3 \<Rightarrow> Vector3" where
  "negate v = Vector3 (- vx v) (- vy v) (- vz v)"

definition dot :: "Vector3 \<Rightarrow> Vector3 \<Rightarrow> real" where
  "dot v w = vx v * vx w + vy v * vy w + vz v * vz w"

definition vlength :: "Vector3 \<Rightarrow> real" where
  "vlength v = sqrt (vx v * vx v + vy v * vy v + vz v * vz v)"

definition divideScalar :: "Vector3 \<Rightarrow> real \<Rightarrow> Vector3" where
  "divideScalar v s = multiplyScalar v (1 / s)"

definition normalize :: "Vector3 \<Rightarrow> Vector3" where
  "normalize v = divideScalar v (if vlength v = 0 then 1 else vlength v)"

section \<open>The player\<close>

text \<open>
  The state of \<open>Player\<close> that the physics core reads and writes. \<open>position\<close> is the
  camera position (the getter of player.ts), \<open>isLocked\<close> is \<open>controls.isLocked\<close>.
  \<open>cameraRight\<close> and \<open>cameraForward\<close> are the two directions along which
  \<open>PointerLockControls.moveRight\<close> and \<open>moveForward\<close> of three.js translate the camera;
  they depend on the camera's orientation only, which the physics core never changes.
  \<open>radius\<close>, \<open>height\<close> and \<open>onGround\<close> are the members that physics.ts reads and writes.
\<close>

record Player =
  maxSpeed :: real
  input :: Vector3
  velocity :: Vector3
  position :: Vector3
  isLocked :: bool
  cameraRight :: Vector3
  cameraForward :: Vector3
  radius :: real
  height :: real
  onGround :: bool

definition moveRight :: "real \<Rightarrow> Player \<Rightarrow> Player" where
  "moveRight distance p =
     p\<lparr>position := add (position p) (multiplyScalar (cameraRight p) distance)\<rparr>"

definition moveForward :: "real \<Rightarrow> Player \<Rightarrow> Player" where
  "moveForward distance p =
     p\<lparr>position := add (position p) (multiplyScalar (cameraForward p) distance)\<rparr>"

text \<open>\<open>Player.applyInputs\<close> of player.ts.\<close>

definition applyInputs :: "real \<Rightarrow> Player \<Rightarrow> Player" where
  "applyInputs dt p =
     (if isLocked p then
        let p1 = p\<lparr>velocity := Vector3 (vx (input p)) (vy (velocity p)) (vz (velocity p))\<rparr>;
            p2 = p1\<lparr>velocity := Vector3 (vx (velocity p1)) (vy (velocity p1)) (vz (input p1))\<rparr>;
            p3 = moveRight (vx (velocity p2) * dt) p2
        in moveForward (vz (velocity p3) * dt) p3
      else p)"

text \<open>
  Modelled from the spec: the accessors \<open>worldVelocity\<close> and \<open>applyWorldDeltaVelocity\<close> of
  \<open>Player\<close>, which physics.ts calls and player.ts does not define. The spec's data model
  makes \<open>velocity\<close> the world-space linear velocity of the actor, and its resolver subtracts a
  vector from that velocity.
\<close>

definition worldVelocity :: "Player \<Rightarrow> Vector3" where
  "worldVelocity p = velocity p"

definition applyWorldDeltaVelocity :: "Vector3 \<Rightarrow> Player \<Rightarrow> Player" where
  "applyWorldDeltaVelocity dv p = p\<lparr>velocity := add (velocity p) dv\<rparr>"

section \<open>The world\<close>

datatype js_error = TypeError

record BlockData =
  block_id :: int
  instanceId :: int

text \<open>\<open>blocks.empty.id\<close> of blocks.ts.\<close>

definition blocks_empty_id :: int where
  "blocks_empty_id = 0"

record World =
  size_width :: int
  size_height :: int
  data :: "BlockData list list list"

text \<open>
  Reading a JavaScript array at an index: \<open>undefined\<close> outside the array. \<open>None\<close> stands
  for both \<open>undefined\<close> and \<open>null\<close>, which the callers do not tell apart.
\<close>

definition at_index :: "'a list \<Rightarrow> int \<Rightarrow> 'a option" where
  "at_index xs i = (if 0 \<le> i \<and> i < int (length xs) then Some (xs ! nat i) else None)"

definition inBounds :: "World \<Rightarrow> int \<Rightarrow> int \<Rightarrow> int \<Rightarrow> bool" where
  "inBounds w x y z \<longleftrightarrow>
     x \<ge> 0 \<and> x < size_width w \<and> y \<ge> 0 \<and> y < size_height w \<and> z \<ge> 0 \<and> z < size_width w"

text \<open>
  \<open>World.getBlock\<close>: \<open>this.inBounds(x, y, z) ? this.data[x][y][z] : null\<close>. Indexing
  \<open>undefined\<close> throws a TypeError; the last index may yield \<open>undefined\<close>.
\<close>

definition getBlock :: "World \<Rightarrow> int \<Rightarrow> int \<Rightarrow> int \<Rightarrow> js_error + BlockData option" where
  "getBlock w x y z =
     (if inBounds w x y z then
        (case at_index (data w) x of
           None \<Rightarrow> Inl TypeError
         | Some slice \<Rightarrow>
             (case at_index slice y of
                None \<Rightarrow> Inl TypeError
              | Some row \<Rightarrow> Inr (at_index row z)))
      else Inr None)"

text \<open>\<open>World.setBlockId\<close>, with the same reads before the write.\<close>

definition setBlockId :: "int \<Rightarrow> int \<Rightarrow> int \<Rightarrow> int \<Rightarrow> World \<Rightarrow> js_error + World" where
  "setBlockId x y z new_id w =
     (if inBounds w x y z then
        (case at_index (data w) x of
           None \<Rightarrow> Inl TypeError
         | Some slice \<Rightarrow>
             (case at_index slice y of
                None \<Rightarrow> Inl TypeError
              | Some row \<Rightarrow>
                  (case at_index row z of
                     None \<Rightarrow> Inl TypeError
                   | Some b \<Rightarrow>
                       Inr (w\<lparr>data := (data w)[nat x :=
                              slice[nat y := row[nat z := b\<lparr>block_id := new_id\<rparr>]]]\<rparr>))))
      else Inr w)"

text \<open>
  \<open>World.initializeTerrain\<close>: three nested counting loops that push
  \<open>{ id: blocks.empty.id, instanceId: -1 }\<close>.
\<close>

fun push_times :: "nat \<Rightarrow> 'a \<Rightarrow> 'a list \<Rightarrow> 'a list" where
  "push_times 0 v acc = acc"
| "push_times (Suc n) v acc = push_times n v (acc @ [v])"

definition initializeTerrain :: "World \<Rightarrow> World" where
  "initializeTerrain w =
     (let row = push_times (nat (size_width w))
                  \<lparr>block_id = blocks_empty_id, instanceId = - 1\<rparr> [];
          slice = push_times (nat (size_height w)) row []
      in w\<lparr>data := push_times (nat (size_width w)) slice []\<rparr>)"

text \<open>
  The data array has the shape that \<open>initializeTerrain\<close> gives it:
  \<open>size.width\<close> slices of \<open>size.height\<close> rows of \<open>size.width\<close> blocks.
\<close>

definition well_formed :: "World \<Rightarrow> bool" where
  "well_formed w \<longleftrightarrow>
     int (length (data w)) = max 0 (size_width w) \<and>
     list_all (\<lambda>slice. int (length slice) = max 0 (size_height w) \<and>
        list_all (\<lambda>row. int (length row) = max 0 (size_width w)) slice) (data w)"

section \<open>Broad phase\<close>

text \<open>
  The body of the innermost loop of \<open>Physics.broadPhase\<close>, run over the cells in the order
  the three nested loops visit them. The debug helper meshes are not modelled.
\<close>

fun scanCells :: "World \<Rightarrow> (int \<times> int \<times> int) list \<Rightarrow> Point3D list \<Rightarrow> js_error + Point3D list" where
  "scanCells world [] candidates = Inr candidates"
| "scanCells world ((x, y, z) # cells) candidates =
     (case getBlock world x y z of
        Inl e \<Rightarrow> Inl e
      | Inr block \<Rightarrow>
          (case block of
             None \<Rightarrow> scanCells world cells candidates
           | Some b \<Rightarrow>
               if block_id b \<noteq> blocks_empty_id
               then scanCells world cells
                      (candidates @ [Point3D (real_of_int x) (real_of_int y) (real_of_int z)])
               else scanCells world cells candidates))"

definition extent_cells :: "Player \<Rightarrow> (int \<times> int \<times> int) list" where
  "extent_cells player =
     (let x_min = \<lfloor>vx (position player) - radius player\<rfloor>;
          x_max = \<lceil>vx (position player) + radius player\<rceil>;
          y_min = \<lfloor>vy (position player) - height player\<rfloor>;
          y_max = \<lceil>vy (position player)\<rceil>;
          z_min = \<lfloor>vz (position player) - radius player\<rfloor>;
          z_max = \<lceil>vz (position player) + radius player\<rceil>
      in concat (map (\<lambda>x. concat (map (\<lambda>y. map (\<lambda>z. (x, y, z)) [z_min..z_max])
                                        [y_min..y_max]))
                     [x_min..x_max]))"

definition broadPhase :: "Player \<Rightarrow> World \<Rightarrow> js_error + Point3D list" where
  "broadPhase player world = scanCells world (extent_cells player) []"

section \<open>Narrow phase\<close>

record BlockCollision =
  block :: Point3D
  contactPoint :: Point3D
  normal :: Vector3
  overlap :: real

text \<open>\<open>Physics.pointInPlayerBoundingCylinder\<close>.\<close>

definition pointInPlayerBoundingCylinder :: "Point3D \<Rightarrow> Player \<Rightarrow> bool" where
  "pointInPlayerBoundingCylinder p player =
     (let dx = px p - vx (position player);
          dy = py p - (vy (position player) - height player / 2);
          dz = pz p - vz (position player);
          r_sq = dx * dx + dz * dz
      in \<bar>dy\<bar> < height player / 2 \<and> r_sq < radius player * radius player)"

text \<open>
  The body of the loop of \<open>Physics.narrowPhase\<close> for one candidate block, given the
  list of collisions built so far and the player, whose \<open>onGround\<close> flag the body sets.
  \<open>Math.sign\<close> is \<open>sgn\<close>. The debug helper meshes are not modelled.
\<close>

definition narrowBody :: "Point3D \<Rightarrow> BlockCollision list \<Rightarrow> Player \<Rightarrow> BlockCollision list \<times> Player" where
  "narrowBody blk collisions player =
     (let closestPoint = Point3D
            (max (px blk - 0.5) (min (vx (position player)) (px blk + 0.5)))
            (max (py blk - 0.5) (min (vy (position player) - height player / 2) (py blk + 0.5)))
            (max (pz blk - 0.5) (min (vz (position player)) (pz blk + 0.5)));
          dx = px closestPoint - vx (position player);
          dy = py closestPoint - (vy (position player) - height player / 2);
          dz = pz closestPoint - vz (position player)
      in if pointInPlayerBoundingCylinder closestPoint player then
           let overlapY = height player / 2 - \<bar>dy\<bar>;
               overlapXZ = radius player - sqrt (dx * dx + dz * dz)
           in if overlapY < overlapXZ then
                (collisions @ [\<lparr>block = blk, contactPoint = closestPoint,
                                 normal = Vector3 0 (- sgn dy) 0, overlap = overlapY\<rparr>],
                 player\<lparr>onGround := True\<rparr>)
              else
                (collisions @ [\<lparr>block = blk, contactPoint = closestPoint,
                                 normal = normalize (Vector3 (- dx) 0 (- dz)),
                                 overlap = overlapXZ\<rparr>],
                 player)
         else (collisions, player))"

fun narrowLoop :: "Point3D list \<Rightarrow> BlockCollision list \<Rightarrow> Player \<Rightarrow> BlockCollision list \<times> Player" where
  "narrowLoop [] collisions player = (collisions, player)"
| "narrowLoop (blk # rest) collisions player =
     (case narrowBody blk collisions player of
        (collisions', player') \<Rightarrow> narrowLoop rest collisions' player')"

definition narrowPhase :: "Point3D list \<Rightarrow> Player \<Rightarrow> BlockCollision list \<times> Player" where
  "narrowPhase candidates player = narrowLoop candidates [] player"

section \<open>Resolution\<close>

text \<open>The comparator that \<open>resolveCollisions\<close> hands to \<open>Array.prototype.sort\<close>.\<close>

definition compareOverlap :: "BlockCollision \<Rightarrow> BlockCollision \<Rightarrow> int" where
  "compareOverlap a b = (if overlap a < overlap b then - 1 else if overlap a > overlap b then 1 else 0)"

text \<open>
  \<open>Array.prototype.sort\<close> with a comparator: ECMAScript requires the sort to be stable, and
  an element \<open>a\<close> stays before \<open>b\<close> unless the comparator puts \<open>b\<close> first. Insertion from
  the right end of the array is such a sort.
\<close>

fun insertBy :: "('a \<Rightarrow> 'a \<Rightarrow> int) \<Rightarrow> 'a \<Rightarrow> 'a list \<Rightarrow> 'a list" where
  "insertBy cmp a [] = [a]"
| "insertBy cmp a (b # bs) = (if cmp a b \<le> 0 then a # b # bs else b # insertBy cmp a bs)"

definition array_sort :: "('a \<Rightarrow> 'a \<Rightarrow> int) \<Rightarrow> 'a list \<Rightarrow> 'a list" where
  "array_sort cmp xs = foldr (insertBy cmp) xs []"

text \<open>The body of the loop of \<open>Physics.resolveCollisions\<close> for one collision.\<close>

definition resolveBody :: "BlockCollision \<Rightarrow> Player \<Rightarrow> Player" where
  "resolveBody collision player =
     (let deltaPosition = multiplyScalar (normal collision) (overlap collision);
          p1 = player\<lparr>position := add (position player) deltaPosition\<rparr>;
          magnitude = dot (worldVelocity p1) (normal collision);
          velocityAdjustment = multiplyScalar (normal collision) magnitude
      in applyWorldDeltaVelocity (negate velocityAdjustment) p1)"

fun resolveLoop :: "BlockCollision list \<Rightarrow> Player \<Rightarrow> Player" where
  "resolveLoop [] player = player"
| "resolveLoop (collision # rest) player = resolveLoop rest (resolveBody collision player)"

definition resolveCollisions :: "BlockCollision list \<Rightarrow> Player \<Rightarrow> Player" where
  "resolveCollisions collisions player = resolveLoop (array_sort compareOverlap collisions) player"

section \<open>Detection pass and fixed-step integrator\<close>

text \<open>\<open>Physics.detectCollisions\<close>. An exception of the broad phase leaves the pass.\<close>

definition detectCollisions :: "Player \<Rightarrow> World \<Rightarrow> js_error + Player" where
  "detectCollisions player world =
     (let p0 = player\<lparr>onGround := False\<rparr> in
      case broadPhase p0 world of
        Inl e \<Rightarrow> Inl e
      | Inr candidates \<Rightarrow>
          (case narrowPhase candidates p0 of
             (collisions, p1) \<Rightarrow>
               if length collisions > 0 then Inr (resolveCollisions collisions p1) else Inr p1))"

text \<open>The field initialisers of \<open>Physics\<close>; no code assigns these three fields again.\<close>

definition gravity :: real where
  "gravity = 32"

definition simulationRate :: real where
  "simulationRate = 250"

definition timestep :: real where
  "timestep = 1 / simulationRate"

record Physics =
  accumulator :: real

text \<open>The body of the while loop of \<open>Physics.update\<close>, before the accumulator is reduced.\<close>

definition fixedStep :: "Player \<Rightarrow> World \<Rightarrow> js_error + Player" where
  "fixedStep player world =
     (let p1 = player\<lparr>velocity := Vector3 (vx (velocity player))
                                          (vy (velocity player) - gravity * timestep)
                                          (vz (velocity player))\<rparr>;
          p2 = applyInputs timestep p1
      in detectCollisions p2 world)"




section \<open>Running the integrator\<close>

text \<open>
  \<open>fixedSteps n\<close> runs the body of the loop of \<open>update\<close> \<open>n\<close> times; it is the yardstick
  for counting the fixed steps that a call of \<open>update\<close> executes. An exception ends the run.
\<close>

fun fixedSteps :: "nat \<Rightarrow> Player \<Rightarrow> World \<Rightarrow> js_error + Player" where
  "fixedSteps 0 player world = Inr player"
| "fixedSteps (Suc n) player world =
     (case fixedStep player world of
        Inl e \<Rightarrow> Inl e
      | Inr p' \<Rightarrow> fixedSteps n p' world)"

section \<open>The accumulator in double arithmetic\<close>

text \<open>
  How many times the loop of \<open>update\<close> runs is decided by comparisons of the accumulator
  with the timestep, and in the code every operation on the accumulator is an operation on
  IEEE 754 doubles, which rounds. For the claims about the number of fixed steps the
  integrator is therefore modelled a second time, with the rounding written out.

  \<open>to_double\<close> rounds a real to the nearest double, ties to even, with gradual underflow:
  the unit in the last place of \<open>x\<close> is \<open>2\<close> to the power \<open>ulp_exponent x\<close>, 52 binary places
  below the leading bit of \<open>x\<close> and never below \<open>2\<^sup>-\<^sup>1\<^sup>0\<^sup>7\<^sup>4\<close>. Overflow to infinity is not
  modelled; the accumulator stays far below \<open>2\<^sup>1\<^sup>0\<^sup>2\<^sup>4\<close>.
\<close>

definition round_half_even :: "real \<Rightarrow> int" where
  "round_half_even y =
     (let f = \<lfloor>y\<rfloor> in
      if y - of_int f < 1 / 2 then f
      else if 1 / 2 < y - of_int f then f + 1
      else if even f then f else f + 1)"

definition ulp_exponent :: "real \<Rightarrow> int" where
  "ulp_exponent x = max \<lfloor>log 2 \<bar>x\<bar>\<rfloor> (- 1022) - 52"

definition to_double :: "real \<Rightarrow> real" where
  "to_double x =
     (if x = 0 then 0
      else of_int (round_half_even (x / 2 powi ulp_exponent x)) * 2 powi ulp_exponent x)"

text \<open>\<open>timestep: number = 1 / this.simulationRate\<close>, the double nearest to \<open>1/250\<close>.\<close>

definition timestep_double :: real where
  "timestep_double = to_double (1 / simulationRate)"

text \<open>
  The loop of \<open>Physics.update\<close> with \<open>this.accumulator -= this.timestep\<close> rounded. Far
  above \<open>2\<^sup>5\<^sup>3\<close> timesteps the rounded difference is the accumulator itself and the loop
  does not end, so the result is an option: \<open>None\<close> stands for a call that never returns.
  The body of the loop is \<open>fixedStep\<close>, whose arithmetic on the player stays exact.
\<close>

partial_function (option) updateLoop_double ::
    "Physics \<Rightarrow> Player \<Rightarrow> World \<Rightarrow> (js_error + (Physics \<times> Player)) option" where
  "updateLoop_double ph player world =
     (if accumulator ph \<ge> timestep_double then
        (case fixedStep player world of
           Inl e \<Rightarrow> Some (Inl e)
         | Inr p' \<Rightarrow>
             updateLoop_double
               (ph\<lparr>accumulator := to_double (accumulator ph - timestep_double)\<rparr>) p' world)
      else Some (Inr (ph, player)))"

text \<open>\<open>Physics.update\<close> with \<open>this.accumulator += dt\<close> rounded.\<close>

definition update_double ::
    "real \<Rightarrow> Physics \<Rightarrow> Player \<Rightarrow> World \<Rightarrow> (js_error + (Physics \<times> Player)) option" where
  "update_double dt ph player world =
     updateLoop_double (ph\<lparr>accumulator := to_double (accumulator ph + dt)\<rparr>) player world"

text \<open>
  The render loop of main.ts calls \<open>physics.update(dt, player, world)\<close> once per frame;
  \<open>updates_double\<close> is that sequence of calls for a list of frame times.
\<close>

fun updates_double ::
    "real list \<Rightarrow> Physics \<Rightarrow> Player \<Rightarrow> World \<Rightarrow> (js_error + (Physics \<times> Player)) option" where
  "updates_double [] ph player world = Some (Inr (ph, player))"
| "updates_double (dt # dts) ph player world =
     (case update_double dt ph player world of
        None \<Rightarrow> None
      | Some (Inl e) \<Rightarrow> Some (Inl e)
      | Some (Inr (ph', p')) \<Rightarrow> updates_double dts ph' p' world)"

section \<open>The narrow phase in double arithmetic\<close>

text \<open>
  Whether the narrow phase emits a record for a block whose closest point lies on the rim
  of the cylinder, and with which overlap, is decided by rounded operations as well. The
  narrow phase is therefore modelled a second time, every arithmetic operation of
  \<open>narrowPhase\<close> and \<open>pointInPlayerBoundingCylinder\<close> rounded with \<open>to_double\<close>, in the
  order in which the code evaluates them. \<open>Math.sqrt\<close> is the rounded exact root, as the
  IEEE 754 operation that the engines execute. Comparisons, \<open>Math.max\<close>, \<open>Math.min\<close>,
  \<open>Math.abs\<close>, \<open>Math.sign\<close> and the change of sign do not round. The coordinates, the radius
  and the height of the player are doubles already; the sign of zero is not modelled.
\<close>

text \<open>\<open>Physics.pointInPlayerBoundingCylinder\<close>, rounded.\<close>

definition pointInPlayerBoundingCylinder_double :: "Point3D \<Rightarrow> Player \<Rightarrow> bool" where
  "pointInPlayerBoundingCylinder_double p player =
     (let dx = to_double (px p - vx (position player));
          dy = to_double (py p - to_double (vy (position player) - to_double (height player / 2)));
          dz = to_double (pz p - vz (position player));
          r_sq = to_double (to_double (dx * dx) + to_double (dz * dz))
      in \<bar>dy\<bar> < to_double (height player / 2) \<and>
         r_sq < to_double (radius player * radius player))"

text \<open>
  \<open>Vector3.length\<close> and \<open>Vector3.normalize\<close> of three.js, rounded: the length is
  \<open>Math.sqrt(x * x + y * y + z * z)\<close>, and \<open>normalize\<close> multiplies each component by
  \<open>1 / (length() || 1)\<close>.
\<close>

definition vlength_double :: "Vector3 \<Rightarrow> real" where
  "vlength_double v =
     to_double (sqrt (to_double (to_double (to_double (vx v * vx v) + to_double (vy v * vy v))
                                   + to_double (vz v * vz v))))"

definition normalize_double :: "Vector3 \<Rightarrow> Vector3" where
  "normalize_double v =
     (let s = to_double (1 / (if vlength_double v = 0 then 1 else vlength_double v))
      in Vector3 (to_double (vx v * s)) (to_double (vy v * s)) (to_double (vz v * s)))"

text \<open>The body of the loop of \<open>Physics.narrowPhase\<close>, rounded.\<close>

definition narrowBody_double ::
    "Point3D \<Rightarrow> BlockCollision list \<Rightarrow> Player \<Rightarrow> BlockCollision list \<times> Player" where
  "narrowBody_double blk collisions player =
     (let closestPoint = Point3D
            (max (to_double (px blk - 0.5)) (min (vx (position player)) (to_double (px blk + 0.5))))
            (max (to_double (py blk - 0.5))
                 (min (to_double (vy (position player) - to_double (height player / 2)))
                      (to_double (py blk + 0.5))))
            (max (to_double (pz blk - 0.5)) (min (vz (position player)) (to_double (pz blk + 0.5))));
          dx = to_double (px closestPoint - vx (position player));
          dy = to_double (py closestPoint
                 - to_double (vy (position player) - to_double (height player / 2)));
          dz = to_double (pz closestPoint - vz (position player))
      in if pointInPlayerBoundingCylinder_double closestPoint player then
           let overlapY = to_double (to_double (height player / 2) - \<bar>dy\<bar>);
               overlapXZ = to_double (radius player
                            - to_double (sqrt (to_double (to_double (dx * dx) + to_double (dz * dz)))))
           in if overlapY < overlapXZ then
                (collisions @ [\<lparr>block = blk, contactPoint = closestPoint,
                                 normal = Vector3 0 (- sgn dy) 0, overlap = overlapY\<rparr>],
                 player\<lparr>onGround := True\<rparr>)
              else
                (collisions @ [\<lparr>block = blk, contactPoint = closestPoint,
                                 normal = normalize_double (Vector3 (- dx) 0 (- dz)),
                                 overlap = overlapXZ\<rparr>],
                 player)
         else (collisions, player))"

fun narrowLoop_double ::
    "Point3D list \<Rightarrow> BlockCollision list \<Rightarrow> Player \<Rightarrow> BlockCollision list \<times> Player" where
  "narrowLoop_double [] collisions player = (collisions, player)"
| "narrowLoop_double (blk # rest) collisions player =
     (case narrowBody_double blk collisions player of
        (collisions', player') \<Rightarrow> narrowLoop_double rest collisions' player')"

definition narrowPhase_double :: "Point3D list \<Rightarrow> Player \<Rightarrow> BlockCollision list \<times> Player" where
  "narrowPhase_double candidates player = narrowLoop_double candidates [] player"

section \<open>The specification's words\<close>

text \<open>
  The narrow phase as the specification describes it, for one candidate cell: the closest
  point of the cell's unit cube (cell position = centre of the cube), clamped per axis
  against the actor's horizontal position and its vertical centre \<open>position.y - height/2\<close>.
\<close>

definition spec_clamp :: "real \<Rightarrow> real \<Rightarrow> real \<Rightarrow> real" where
  "spec_clamp lo hi v = (if v < lo then lo else if hi < v then hi else v)"

definition spec_closest :: "Point3D \<Rightarrow> Player \<Rightarrow> Point3D" where
  "spec_closest cell actor =
     Point3D (spec_clamp (px cell - 1 / 2) (px cell + 1 / 2) (vx (position actor)))
             (spec_clamp (py cell - 1 / 2) (py cell + 1 / 2) (vy (position actor) - height actor / 2))
             (spec_clamp (pz cell - 1 / 2) (pz cell + 1 / 2) (vz (position actor)))"

definition spec_dx :: "Point3D \<Rightarrow> Player \<Rightarrow> real" where
  "spec_dx cell actor = px (spec_closest cell actor) - vx (position actor)"

definition spec_dy :: "Point3D \<Rightarrow> Player \<Rightarrow> real" where
  "spec_dy cell actor = py (spec_closest cell actor) - (vy (position actor) - height actor / 2)"

definition spec_dz :: "Point3D \<Rightarrow> Player \<Rightarrow> real" where
  "spec_dz cell actor = pz (spec_closest cell actor) - vz (position actor)"

definition spec_contained :: "Point3D \<Rightarrow> Player \<Rightarrow> bool" where
  "spec_contained cell actor \<longleftrightarrow>
     \<bar>spec_dy cell actor\<bar> < height actor / 2 \<and>
     (spec_dx cell actor)\<^sup>2 + (spec_dz cell actor)\<^sup>2 < (radius actor)\<^sup>2"

definition spec_overlapY :: "Point3D \<Rightarrow> Player \<Rightarrow> real" where
  "spec_overlapY cell actor = height actor / 2 - \<bar>spec_dy cell actor\<bar>"

definition spec_overlapXZ :: "Point3D \<Rightarrow> Player \<Rightarrow> real" where
  "spec_overlapXZ cell actor =
     radius actor - sqrt ((spec_dx cell actor)\<^sup>2 + (spec_dz cell actor)\<^sup>2)"

text \<open>The axis selection: a collision is vertical when the vertical overlap is the smaller.\<close>

definition spec_vertical :: "Point3D \<Rightarrow> Player \<Rightarrow> bool" where
  "spec_vertical cell actor \<longleftrightarrow> spec_overlapY cell actor < spec_overlapXZ cell actor"

definition spec_record :: "Player \<Rightarrow> Point3D \<Rightarrow> BlockCollision" where
  "spec_record actor cell =
     (if spec_vertical cell actor
      then \<lparr>block = cell, contactPoint = spec_closest cell actor,
            normal = Vector3 0 (- sgn (spec_dy cell actor)) 0,
            overlap = spec_overlapY cell actor\<rparr>
      else \<lparr>block = cell, contactPoint = spec_closest cell actor,
            normal = normalize (Vector3 (- spec_dx cell actor) 0 (- spec_dz cell actor)),
            overlap = spec_overlapXZ cell actor\<rparr>)"

text \<open>
  The resolver's treatment of one collision in the specification's words: translate the
  position by \<open>normal * overlap\<close>, then subtract from the velocity its projection onto the
  normal.
\<close>

definition spec_resolve :: "Player \<Rightarrow> BlockCollision \<Rightarrow> Player" where
  "spec_resolve actor c =
     actor\<lparr>position := Vector3 (vx (position actor) + vx (normal c) * overlap c)
                                (vy (position actor) + vy (normal c) * overlap c)
                                (vz (position actor) + vz (normal c) * overlap c),
            velocity := Vector3 (vx (velocity actor) - dot (velocity actor) (normal c) * vx (normal c))
                                (vy (velocity actor) - dot (velocity actor) (normal c) * vy (normal c))
                                (vz (velocity actor) - dot (velocity actor) (normal c) * vz (normal c))\<rparr>"

text \<open>An occupied cell of the grid: inside the bounds, with a block that is not empty.\<close>

definition occupied :: "World \<Rightarrow> int \<times> int \<times> int \<Rightarrow> bool" where
  "occupied world cell =
     (case cell of (x, y, z) \<Rightarrow>
        inBounds world x y z \<and>
        block_id (data world ! nat x ! nat y ! nat z) \<noteq> blocks_empty_id)"

definition cell_point :: "int \<times> int \<times> int \<Rightarrow> Point3D" where
  "cell_point cell = (case cell of (x, y, z) \<Rightarrow> Point3D (real_of_int x) (real_of_int y) (real_of_int z))"

section \<open>A scenario\<close>

text \<open>
  The scenario of the specification: a world of the default size in which the block at
  cell \<open>(0, 1, 0)\<close> is grass (id 1) and every other block is empty, and an actor of radius
  0.4 and height 1.8 at \<open>(0.5, 2.0, 0.5)\<close>, at rest, with no input, with the camera in its
  default orientation.
\<close>

definition emptyBlock :: BlockData where
  "emptyBlock = \<lparr>block_id = blocks_empty_id, instanceId = - 1\<rparr>"

definition scenarioWorld :: World where
  "scenarioWorld =
     \<lparr>size_width = 64, size_height = 32,
      data = (replicate 64 (replicate 32 (replicate 64 emptyBlock)))
               [0 := (replicate 32 (replicate 64 emptyBlock))
                  [1 := (replicate 64 emptyBlock)[0 := emptyBlock\<lparr>block_id := 1\<rparr>]]]\<rparr>"

definition scenarioPlayer :: Player where
  "scenarioPlayer =
     \<lparr>maxSpeed = 10, input = Vector3 0 0 0, velocity = Vector3 0 0 0,
      position = Vector3 (1 / 2) 2 (1 / 2), isLocked = False,
      cameraRight = Vector3 1 0 0, cameraForward = Vector3 0 0 (- 1),
      radius = 2 / 5, height = 9 / 5, onGround = False\<rparr>"

text \<open>The same actor with its feet one tenth below the top face \<open>y = 1.5\<close> of the block.\<close>

definition sunkPlayer :: Player where
  "sunkPlayer = scenarioPlayer\<lparr>position := Vector3 (1 / 2) (16 / 5) (1 / 2)\<rparr>"

text \<open>
  An actor of the same radius and height whose cylinder grazes a vertical edge of the
  block: the doubles that the literals \<open>0.6073491608790096\<close>, \<open>1.9\<close>, \<open>0.885326040722104\<close>,
  \<open>0.4\<close> and \<open>1.8\<close> denote.
\<close>

definition grazingPlayer :: Player where
  "grazingPlayer = scenarioPlayer
     \<lparr>position := Vector3 (to_double (6073491608790096 / 10 ^ 16)) (to_double (19 / 10))
                           (to_double (885326040722104 / 10 ^ 15)),
      radius := to_double (2 / 5), height := to_double (9 / 5)\<rparr>"

section \<open>The integrator\<close>

lemma timestep_pos: "0 < timestep"
  by (simp add: timestep_def simulationRate_def)



section \<open>Reading the grid\<close>

lemma getBlock_well_formed:
  assumes "well_formed w"
  shows "getBlock w x y z =
           Inr (if inBounds w x y z then Some (data w ! nat x ! nat y ! nat z) else None)"
proof (cases "inBounds w x y z")
  case False
  then show ?thesis by (simp add: getBlock_def)
next
  case True
  then have x: "0 \<le> x" "x < size_width w" and y: "0 \<le> y" "y < size_height w"
    and z: "0 \<le> z" "z < size_width w"
    by (simp_all add: inBounds_def)
  from assms have len: "int (length (data w)) = max 0 (size_width w)"
    and all: "list_all (\<lambda>slice. int (length slice) = max 0 (size_height w) \<and>
        list_all (\<lambda>row. int (length row) = max 0 (size_width w)) slice) (data w)"
    by (simp_all add: well_formed_def)
  from x len have xl: "nat x < length (data w)" by linarith
  with all have sl: "int (length (data w ! nat x)) = max 0 (size_height w)"
    and rows: "list_all (\<lambda>row. int (length row) = max 0 (size_width w)) (data w ! nat x)"
    by (simp_all add: list_all_length)
  from y sl have yl: "nat y < length (data w ! nat x)" by linarith
  with rows have rl: "int (length (data w ! nat x ! nat y)) = max 0 (size_width w)"
    by (simp add: list_all_length)
  from z rl have zl: "nat z < length (data w ! nat x ! nat y)" by linarith
  from x xl have a1: "at_index (data w) x = Some (data w ! nat x)"
    by (simp add: at_index_def)
  from y yl have a2: "at_index (data w ! nat x) y = Some (data w ! nat x ! nat y)"
    by (simp add: at_index_def)
  from z zl have a3: "at_index (data w ! nat x ! nat y) z = Some (data w ! nat x ! nat y ! nat z)"
    by (simp add: at_index_def)
  from True a1 a2 a3 show ?thesis by (simp add: getBlock_def)
qed

lemma scanCells_well_formed:
  assumes "well_formed w"
  shows "scanCells w cells candidates = Inr (candidates @ map cell_point (filter (occupied w) cells))"
proof (induction cells arbitrary: candidates)
  case Nil
  show ?case by simp
next
  case (Cons c cells)
  obtain x y z where c: "c = (x, y, z)" by (cases c) auto
  show ?case
    unfolding c using Cons.IH
    by (simp add: getBlock_well_formed [OF assms] occupied_def cell_point_def)
qed


text \<open>
  \<open>initializeTerrain\<close> makes the world well-formed and \<open>setBlockId\<close> keeps it so; the world
  of the scenario is what the two build from the default size.
\<close>

lemma push_times_replicate: "push_times n v acc = acc @ replicate n v"
  by (induction n arbitrary: acc) (simp_all add: replicate_append_same)

lemma data_initializeTerrain:
  "data (initializeTerrain w) =
     replicate (nat (size_width w)) (replicate (nat (size_height w))
       (replicate (nat (size_width w)) emptyBlock))"
  by (simp add: initializeTerrain_def push_times_replicate emptyBlock_def)

lemma well_formed_initializeTerrain: "well_formed (initializeTerrain w)"
proof -
  have "size_width (initializeTerrain w) = size_width w"
    "size_height (initializeTerrain w) = size_height w"
    by (simp_all add: initializeTerrain_def Let_def)
  then show ?thesis
    by (simp add: well_formed_def data_initializeTerrain list_all_length)
qed

lemma well_formed_setBlockId:
  assumes "well_formed w" and "setBlockId x y z i w = Inr w'"
  shows "well_formed w'"
  using assms
  by (auto simp add: setBlockId_def well_formed_def list_all_length nth_list_update at_index_def
        split: if_splits option.splits)

lemma scenarioWorld_built:
  "setBlockId 0 1 0 1 (initializeTerrain \<lparr>size_width = 64, size_height = 32, data = []\<rparr>)
     = Inr scenarioWorld"
  by (simp add: setBlockId_def inBounds_def at_index_def data_initializeTerrain scenarioWorld_def
        initializeTerrain_def Let_def push_times_replicate emptyBlock_def)

lemma well_formed_scenarioWorld: "well_formed scenarioWorld"
  by (simp add: well_formed_def scenarioWorld_def list_all_length nth_list_update)

section \<open>Runs of fixed steps\<close>

lemma fixedSteps_add:
  "fixedSteps (m + n) player world =
     (case fixedSteps m player world of Inl e \<Rightarrow> Inl e | Inr p' \<Rightarrow> fixedSteps n p' world)"
  by (induction m arbitrary: player) (auto split: sum.splits)

lemma broadPhase_well_formed:
  "well_formed world \<Longrightarrow>
     broadPhase player world = Inr (map cell_point (filter (occupied world) (extent_cells player)))"
  by (simp add: broadPhase_def scanCells_well_formed)

lemma detectCollisions_well_formed:
  "well_formed world \<Longrightarrow> \<exists>p'. detectCollisions player world = Inr p'"
  by (simp add: detectCollisions_def Let_def broadPhase_well_formed split: prod.splits)

lemma fixedStep_well_formed:
  "well_formed world \<Longrightarrow> \<exists>p'. fixedStep player world = Inr p'"
  by (simp add: fixedStep_def Let_def detectCollisions_well_formed)

lemma fixedSteps_well_formed:
  assumes "well_formed world"
  shows "\<exists>p'. fixedSteps n player world = Inr p'"
proof (induction n arbitrary: player)
  case 0
  show ?case by simp
next
  case (Suc n)
  from fixedStep_well_formed [OF assms] obtain q where "fixedStep player world = Inr q"
    by blast
  with Suc [of q] show ?case by simp
qed

section \<open>The narrow phase and the specification\<close>

lemma clamp_max_min:
  "max (c - 1 / 2) (min v (c + 1 / 2)) = spec_clamp (c - 1 / 2) (c + 1 / 2) (v::real)"
  by (simp add: spec_clamp_def max_def min_def)

lemma closest_spec:
  "Point3D
            (max (px blk - 0.5) (min (vx (position player)) (px blk + 0.5)))
            (max (py blk - 0.5) (min (vy (position player) - height player / 2) (py blk + 0.5)))
            (max (pz blk - 0.5) (min (vz (position player)) (pz blk + 0.5)))
   = spec_closest blk player"
  unfolding spec_closest_def by (simp only: clamp_max_min [symmetric]) simp

lemma pointIn_spec:
  "pointInPlayerBoundingCylinder (spec_closest blk player) player = spec_contained blk player"
  unfolding pointInPlayerBoundingCylinder_def spec_contained_def spec_dx_def spec_dy_def spec_dz_def Let_def
    power2_eq_square ..

lemma narrowBody_spec:
  "narrowBody blk collisions player =
     (if spec_contained blk player
      then (collisions @ [spec_record player blk],
            if spec_vertical blk player then player\<lparr>onGround := True\<rparr> else player)
      else (collisions, player))"
proof -
  have v: "spec_vertical blk player \<longleftrightarrow>
      height player / 2 - \<bar>py (spec_closest blk player) - (vy (position player) - height player / 2)\<bar>
      < radius player - sqrt ((px (spec_closest blk player) - vx (position player)) *
          (px (spec_closest blk player) - vx (position player)) +
          (pz (spec_closest blk player) - vz (position player)) *
          (pz (spec_closest blk player) - vz (position player)))"
    unfolding spec_vertical_def spec_overlapY_def spec_overlapXZ_def
      spec_dx_def spec_dy_def spec_dz_def power2_eq_square ..
  show ?thesis
    unfolding narrowBody_def closest_spec Let_def pointIn_spec v [symmetric]
    unfolding spec_record_def spec_overlapY_def spec_overlapXZ_def
      spec_dx_def spec_dy_def spec_dz_def power2_eq_square
    by (cases "spec_contained blk player"; cases "spec_vertical blk player")
       (simp_all only: if_True if_False)
qed

lemma spec_onGround [simp]:
  "spec_contained blk (player\<lparr>onGround := b\<rparr>) = spec_contained blk player"
  "spec_vertical blk (player\<lparr>onGround := b\<rparr>) = spec_vertical blk player"
  "spec_record (player\<lparr>onGround := b\<rparr>) blk = spec_record player blk"
  by (simp_all add: spec_closest_def spec_dx_def spec_dy_def spec_dz_def spec_contained_def
  spec_overlapY_def spec_overlapXZ_def spec_vertical_def spec_record_def)


lemma narrowLoop_spec:
  "narrowLoop candidates collisions player =
     (collisions @ map (spec_record player) (filter (\<lambda>blk. spec_contained blk player) candidates),
      player\<lparr>onGround := onGround player \<or>
         (\<exists>blk \<in> set candidates. spec_contained blk player \<and> spec_vertical blk player)\<rparr>)"
proof (induction candidates arbitrary: collisions player)
  case Nil
  show ?case by simp
next
  case (Cons blk rest)
  have rec: "spec_record (player\<lparr>onGround := True\<rparr>) = spec_record player"
    by (rule ext) simp
  show ?case
  proof (cases "spec_contained blk player")
    case False
    then show ?thesis by (simp add: narrowBody_spec Cons.IH)
  next
    case True
    show ?thesis
    proof (cases "spec_vertical blk player")
      case False
      with True show ?thesis by (auto simp add: narrowBody_spec Cons.IH)
    next
      case v: True
      with True show ?thesis by (simp add: narrowBody_spec Cons.IH rec)
    qed
  qed
qed

lemma narrowPhase_spec:
  "narrowPhase candidates player =
     (map (spec_record player) (filter (\<lambda>blk. spec_contained blk player) candidates),
      player\<lparr>onGround := onGround player \<or>
         (\<exists>blk \<in> set candidates. spec_contained blk player \<and> spec_vertical blk player)\<rparr>)"
  by (simp add: narrowPhase_def narrowLoop_spec)

lemma record_overlap:
  "overlap (spec_record player blk) = (if spec_vertical blk player then spec_overlapY blk player else spec_overlapXZ blk player)"
  "block (spec_record player blk) = blk"
  by (simp_all add: spec_record_def)

section \<open>The candidates of the broad phase\<close>








lemma sunk_contained: "spec_contained (Point3D 0 1 0) sunkPlayer"
  by (simp add: spec_contained_def spec_dx_def spec_dy_def spec_dz_def spec_closest_def
        spec_clamp_def sunkPlayer_def scenarioPlayer_def)



section \<open>The grounded flag\<close>

lemma onGround_resolveBody [simp]: "onGround (resolveBody c p) = onGround p"
  by (simp add: resolveBody_def Let_def applyWorldDeltaVelocity_def)

lemma onGround_resolveLoop [simp]: "onGround (resolveLoop cs p) = onGround p"
  by (induction cs arbitrary: p) simp_all

lemma onGround_resolveCollisions [simp]: "onGround (resolveCollisions cs p) = onGround p"
  by (simp add: resolveCollisions_def)

lemma extent_cells_onGround [simp]: "extent_cells (player\<lparr>onGround := b\<rparr>) = extent_cells player"
  by (simp add: extent_cells_def)

lemma broadPhase_onGround [simp]: "broadPhase (player\<lparr>onGround := b\<rparr>) world = broadPhase player world"
  by (simp add: broadPhase_def)

lemma narrowPhase_onGround:
  "narrowPhase candidates (player\<lparr>onGround := False\<rparr>) =
     (fst (narrowPhase candidates player),
      player\<lparr>onGround := \<exists>c \<in> set (fst (narrowPhase candidates player)). spec_vertical (block c) player\<rparr>)"
proof -
  have rec: "spec_record (player\<lparr>onGround := False\<rparr>) = spec_record player"
    by (rule ext) simp
  have "(\<exists>cell \<in> set candidates. spec_contained cell player \<and> spec_vertical cell player) \<longleftrightarrow>
      (\<exists>c \<in> set (fst (narrowPhase candidates player)). spec_vertical (block c) player)"
    by (auto simp add: narrowPhase_spec record_overlap)
  then show ?thesis
    by (simp add: narrowPhase_spec rec)
qed

text \<open>
  C8: the value of \<open>onGround\<close> before a detection pass has no effect on the pass, which
  resets it; when the pass returns, \<open>onGround\<close> holds if and only if a record emitted by the
  narrow phase of this pass selected the vertical axis. In a well-formed world the pass
  returns.
\<close>

theorem detectCollisions_onGround:
  "detectCollisions (player\<lparr>onGround := b\<rparr>) world = detectCollisions player world \<and>
   (\<forall>p'. detectCollisions player world = Inr p' \<longrightarrow>
      (\<exists>candidates. broadPhase player world = Inr candidates \<and>
         (onGround p' \<longleftrightarrow>
            (\<exists>c \<in> set (fst (narrowPhase candidates player)). spec_vertical (block c) player)))) \<and>
   (well_formed world \<longrightarrow> (\<exists>p'. detectCollisions player world = Inr p'))"
proof (intro conjI allI impI)
  show "detectCollisions (player\<lparr>onGround := b\<rparr>) world = detectCollisions player world"
    by (simp add: detectCollisions_def)
next
  fix p'
  assume ret: "detectCollisions player world = Inr p'"
  then obtain candidates where bp: "broadPhase player world = Inr candidates"
    by (auto simp add: detectCollisions_def Let_def split: sum.splits)
  with ret have "onGround p' \<longleftrightarrow>
      (\<exists>c \<in> set (fst (narrowPhase candidates player)). spec_vertical (block c) player)"
    by (auto simp add: detectCollisions_def Let_def narrowPhase_onGround split: if_splits)
  with bp show "\<exists>candidates. broadPhase player world = Inr candidates \<and>
         (onGround p' \<longleftrightarrow>
            (\<exists>c \<in> set (fst (narrowPhase candidates player)). spec_vertical (block c) player))"
    by blast
next
  assume "well_formed world"
  then show "\<exists>p'. detectCollisions player world = Inr p'"
    by (rule detectCollisions_well_formed)
qed

lemma broadPhase_sunk: "broadPhase sunkPlayer scenarioWorld = Inr [Point3D 0 1 0]"
  unfolding broadPhase_def
  apply (simp add: extent_cells_def sunkPlayer_def scenarioPlayer_def upto.simps)
  apply (simp add: scenarioWorld_def getBlock_def inBounds_def at_index_def emptyBlock_def blocks_empty_id_def)
  done

lemma sunk_vertical: "spec_vertical (Point3D 0 1 0) sunkPlayer"
  by (simp add: spec_vertical_def spec_overlapY_def spec_overlapXZ_def
        spec_dx_def spec_dy_def spec_dz_def spec_closest_def
        spec_clamp_def sunkPlayer_def scenarioPlayer_def)

theorem detectCollisions_onGround_witness:
  "\<exists>p'. detectCollisions (sunkPlayer\<lparr>onGround := True\<rparr>) scenarioWorld = Inr p' \<and> onGround p'"
proof -
  note pass = detectCollisions_onGround [where player = sunkPlayer and b = True and world = scenarioWorld]
  from pass well_formed_scenarioWorld obtain p' where
    ret: "detectCollisions sunkPlayer scenarioWorld = Inr p'"
    by blast
  with pass obtain candidates where "broadPhase sunkPlayer scenarioWorld = Inr candidates"
    and g: "onGround p' \<longleftrightarrow>
      (\<exists>c \<in> set (fst (narrowPhase candidates sunkPlayer)). spec_vertical (block c) sunkPlayer)"
    by blast
  then have "candidates = [Point3D 0 1 0]"
    by (simp add: broadPhase_sunk)
  with g have "onGround p'"
    by (simp add: narrowPhase_spec sunk_contained record_overlap sunk_vertical)
  with pass ret show ?thesis by simp
qed


section \<open>The order and the effect of the resolution\<close>

lemma compareOverlap_le: "compareOverlap a b \<le> 0 \<longleftrightarrow> overlap a \<le> overlap b"
  by (simp add: compareOverlap_def)

lemma insertBy_compareOverlap: "insertBy compareOverlap a bs = insort_key overlap a bs"
  by (induction bs) (simp_all add: compareOverlap_le)

lemma array_sort_compareOverlap: "array_sort compareOverlap cs = sort_key overlap cs"
proof -
  have "insertBy compareOverlap = insort_key overlap"
    by (intro ext) (rule insertBy_compareOverlap)
  then show ?thesis
    by (simp add: array_sort_def sort_key_def)
qed

lemma resolveBody_spec: "resolveBody c p = spec_resolve p c"
  by (simp add: resolveBody_def spec_resolve_def Let_def add_def multiplyScalar_def negate_def
        worldVelocity_def applyWorldDeltaVelocity_def dot_def algebra_simps)

lemma resolveLoop_foldl: "resolveLoop cs p = foldl spec_resolve p cs"
  by (induction cs arbitrary: p) (simp_all add: resolveBody_spec)

lemma spec_resolve_tangential:
  assumes "dot (normal c) t = 0"
  shows "dot (velocity (spec_resolve p c)) t = dot (velocity p) t"
proof -
  have "dot (velocity (spec_resolve p c)) t
      = dot (velocity p) t - dot (velocity p) (normal c) * dot (normal c) t"
    by (simp add: spec_resolve_def dot_def algebra_simps)
  with assms show ?thesis by simp
qed

lemma spec_resolve_normal:
  assumes "vlength (normal c) = 1"
  shows "dot (velocity (spec_resolve p c)) (normal c) = 0"
proof -
  from assms have unit: "dot (normal c) (normal c) = 1"
    by (simp add: vlength_def dot_def)
  have "dot (velocity (spec_resolve p c)) (normal c)
      = dot (velocity p) (normal c) - dot (velocity p) (normal c) * dot (normal c) (normal c)"
    by (simp add: spec_resolve_def dot_def algebra_simps)
  with unit show ?thesis by simp
qed

text \<open>
  C2: \<open>resolveCollisions\<close> treats the records in the order \<open>ordered\<close> that the sort gives
  them: ascending in \<open>overlap\<close>, a permutation of the input, and stable (records of equal
  overlap keep their order of discovery). Each record, in that order, translates the
  position by \<open>normal * overlap\<close> and then subtracts from the velocity its projection onto the
  normal (\<open>spec_resolve\<close>). That leaves every component of the velocity orthogonal to the
  normal unchanged, and removes the component along a normal of unit length.
\<close>

theorem resolveCollisions_sorted:
  fixes collisions :: "BlockCollision list" and ordered :: "BlockCollision list"
  defines "ordered \<equiv> array_sort compareOverlap collisions"
  shows "resolveCollisions collisions player = foldl spec_resolve player ordered \<and>
         sorted (map overlap ordered) \<and>
         mset ordered = mset collisions \<and>
         (\<forall>k. filter (\<lambda>c. overlap c = k) ordered = filter (\<lambda>c. overlap c = k) collisions) \<and>
         (\<forall>p c t. dot (normal c) t = 0 \<longrightarrow>
            dot (velocity (spec_resolve p c)) t = dot (velocity p) t) \<and>
         (\<forall>p c. vlength (normal c) = 1 \<longrightarrow> dot (velocity (spec_resolve p c)) (normal c) = 0)"
proof -
  have o: "ordered = sort_key overlap collisions"
    by (simp add: ordered_def array_sort_compareOverlap)
  have "resolveCollisions collisions player = foldl spec_resolve player ordered"
    by (simp add: resolveCollisions_def resolveLoop_foldl ordered_def)
  moreover have "sorted (map overlap ordered)"
    unfolding o by (rule sorted_sort_key)
  moreover have "mset ordered = mset collisions"
    unfolding o by (rule mset_sort)
  moreover have "\<forall>k. filter (\<lambda>c. overlap c = k) ordered = filter (\<lambda>c. overlap c = k) collisions"
    unfolding o by (simp add: sort_key_stable)
  ultimately show ?thesis
    using spec_resolve_tangential spec_resolve_normal by blast
qed

theorem resolveCollisions_sorted_witness:
  "resolveCollisions
     [\<lparr>block = Point3D 1 2 0, contactPoint = Point3D (1 / 2) 2 (1 / 2),
       normal = Vector3 (- 1) 0 0, overlap = 3 / 10\<rparr>,
      \<lparr>block = Point3D 0 1 0, contactPoint = Point3D (1 / 2) (3 / 2) (1 / 2),
       normal = Vector3 0 1 0, overlap = 1 / 10\<rparr>]
     (sunkPlayer\<lparr>velocity := Vector3 3 (- 5) 2\<rparr>)
   = sunkPlayer\<lparr>position := Vector3 (1 / 5) (33 / 10) (1 / 2), velocity := Vector3 0 0 2\<rparr> \<and>
   dot (velocity (spec_resolve (sunkPlayer\<lparr>velocity := Vector3 3 (- 5) 2\<rparr>)
      \<lparr>block = Point3D 0 1 0, contactPoint = Point3D (1 / 2) (3 / 2) (1 / 2),
       normal = Vector3 0 1 0, overlap = 1 / 10\<rparr>)) (Vector3 1 0 0) = 3"
proof -
  let ?a = "\<lparr>block = Point3D 1 2 0, contactPoint = Point3D (1 / 2) 2 (1 / 2),
       normal = Vector3 (- 1) 0 0, overlap = 3 / 10\<rparr>"
  let ?b = "\<lparr>block = Point3D 0 1 0, contactPoint = Point3D (1 / 2) (3 / 2) (1 / 2),
       normal = Vector3 0 1 0, overlap = 1 / 10\<rparr>"
  let ?p = "sunkPlayer\<lparr>velocity := Vector3 3 (- 5) 2\<rparr>"
  note r = resolveCollisions_sorted [of "[?a, ?b]" ?p]
  have s: "array_sort compareOverlap [?a, ?b] = [?b, ?a]"
    by (simp add: array_sort_def compareOverlap_def)
  from r have "resolveCollisions [?a, ?b] ?p = foldl spec_resolve ?p [?b, ?a]"
    unfolding s by blast
  then have 1: "resolveCollisions [?a, ?b] ?p
      = sunkPlayer\<lparr>position := Vector3 (1 / 5) (33 / 10) (1 / 2), velocity := Vector3 0 0 2\<rparr>"
    by (simp add: spec_resolve_def dot_def sunkPlayer_def scenarioPlayer_def)
  from r have "dot (normal ?b) (Vector3 1 0 0) = 0 \<longrightarrow>
      dot (velocity (spec_resolve ?p ?b)) (Vector3 1 0 0) = dot (velocity ?p) (Vector3 1 0 0)"
    by blast
  then have 2: "dot (velocity (spec_resolve ?p ?b)) (Vector3 1 0 0) = 3"
    by (simp add: dot_def)
  from 1 2 show ?thesis ..
qed

section \<open>Degenerate normals\<close>

text \<open>
  C5: the claim asks for a unit normal on every emitted record. The code misses two cases.
  For the actor of the scenario and the block below it, \<open>dx = dz = 0\<close> and the horizontal
  axis is selected: \<open>normalize\<close> is applied to the zero vector and the record carries the
  normal \<open>(0, 0, 0)\<close>. For an actor wider than it is tall whose centre lies inside the block,
  \<open>dy = 0\<close> and the vertical axis is selected: \<open>-Math.sign(0)\<close> gives the normal
  \<open>(0, 0, 0)\<close> again. Both normals have length 0.
\<close>

theorem narrowPhase_zero_normal:
  "fst (narrowPhase [Point3D 0 1 0] scenarioPlayer) =
     [\<lparr>block = Point3D 0 1 0, contactPoint = Point3D (1 / 2) (11 / 10) (1 / 2),
       normal = Vector3 0 0 0, overlap = 2 / 5\<rparr>] \<and>
   fst (narrowPhase [Point3D 0 1 0]
          (scenarioPlayer\<lparr>position := Vector3 0 (3 / 2) 0, radius := 2, height := 1\<rparr>)) =
     [\<lparr>block = Point3D 0 1 0, contactPoint = Point3D 0 1 0,
       normal = Vector3 0 0 0, overlap = 1 / 2\<rparr>] \<and>
   vlength (Vector3 0 0 0) = 0"
  by (simp add: narrowPhase_def narrowBody_def pointInPlayerBoundingCylinder_def scenarioPlayer_def
        normalize_def vlength_def divideScalar_def multiplyScalar_def Let_def)

section \<open>The scenario, step by step\<close>

lemmas step_defs = fixedStep_def applyInputs_def detectCollisions_def broadPhase_def
  extent_cells_def upto.simps gravity_def timestep_def simulationRate_def Let_def

lemmas world_defs = scenarioWorld_def getBlock_def inBounds_def at_index_def
  emptyBlock_def blocks_empty_id_def

lemmas narrow_defs = narrowPhase_def narrowBody_def pointInPlayerBoundingCylinder_def
  normalize_def vlength_def divideScalar_def multiplyScalar_def Let_def

lemmas resolve_defs = resolveCollisions_def array_sort_def resolveBody_def add_def
  multiplyScalar_def negate_def dot_def worldVelocity_def applyWorldDeltaVelocity_def Let_def

lemma fixedStep_scenario:
  "fixedStep (scenarioPlayer\<lparr>velocity := Vector3 0 v 0\<rparr>) scenarioWorld
     = Inr (scenarioPlayer\<lparr>velocity := Vector3 0 (v - 16 / 125) 0\<rparr>)"
  apply (simp add: step_defs scenarioPlayer_def)
  apply (simp add: world_defs)
  apply (simp add: narrow_defs)
  apply (simp add: resolve_defs)
  done

lemma fixedSteps_scenario:
  "fixedSteps n (scenarioPlayer\<lparr>velocity := Vector3 0 v 0\<rparr>) scenarioWorld
     = Inr (scenarioPlayer\<lparr>velocity := Vector3 0 (v - real n * (16 / 125)) 0\<rparr>)"
proof (induction n arbitrary: v)
  case 0
  show ?case by simp
next
  case (Suc n)
  have "v - 16 / 125 - real n * (16 / 125) = v - real (Suc n) * (16 / 125)"
    by (simp add: algebra_simps)
  with Suc [of "v - 16 / 125"] show ?case
    by (simp only: fixedSteps.simps fixedStep_scenario sum.case)
qed

lemma scenarioPlayer_at_rest: "scenarioPlayer\<lparr>velocity := Vector3 0 0 0\<rparr> = scenarioPlayer"
  by (simp add: scenarioPlayer_def)

section \<open>Rounding to double\<close>

lemma ulp_exponentI:
  assumes "2 powi k \<le> \<bar>x\<bar>" and "\<bar>x\<bar> < 2 powi (k + 1)" and "- 1022 \<le> k"
  shows "ulp_exponent x = k - 52"
proof -
  have p: "0 < (2::real) powi k"
    by simp
  with assms(1) have pos: "0 < \<bar>x\<bar>"
    by linarith
  have conv: "(2::real) powr (of_int j) = 2 powi j" for j
    by (simp add: powr_real_of_int')
  have "2 powr (of_int k) \<le> \<bar>x\<bar>"
    using assms(1) by (simp only: conv)
  moreover have "\<bar>x\<bar> < 2 powr (of_int (k + 1))"
    using assms(2) by (simp only: conv)
  ultimately have "\<lfloor>log 2 \<bar>x\<bar>\<rfloor> = k"
    using pos floor_log_eq_powr_iff [of "\<bar>x\<bar>" 2 k] by simp
  with assms(3) show ?thesis
    by (simp add: ulp_exponent_def)
qed

lemma to_doubleI:
  assumes "2 powi k \<le> \<bar>x\<bar>" and "\<bar>x\<bar> < 2 powi (k + 1)" and "- 1022 \<le> k"
  shows "to_double x = of_int (round_half_even (x / 2 powi (k - 52))) * 2 powi (k - 52)"
proof -
  have "0 < (2::real) powi k"
    by simp
  with assms(1) have "0 < \<bar>x\<bar>"
    by linarith
  then have "x \<noteq> 0"
    by simp
  then show ?thesis
    by (simp add: to_double_def ulp_exponentI [OF assms])
qed

text \<open>The rounding of a number between \<open>2\<^sup>-\<^sup>9\<close> and \<open>2\<^sup>-\<^sup>4\<close>, binade by binade.\<close>

lemma to_double_range:
  assumes "1 / 512 \<le> x" and "x < 1 / 16"
  shows "to_double x =
     (if x < 1 / 256 then of_int (round_half_even (x * 2 ^ 61)) / 2 ^ 61
      else if x < 1 / 128 then of_int (round_half_even (x * 2 ^ 60)) / 2 ^ 60
      else if x < 1 / 64 then of_int (round_half_even (x * 2 ^ 59)) / 2 ^ 59
      else if x < 1 / 32 then of_int (round_half_even (x * 2 ^ 58)) / 2 ^ 58
      else of_int (round_half_even (x * 2 ^ 57)) / 2 ^ 57)"
proof -
  have abs: "\<bar>x\<bar> = x"
    using assms(1) by simp
  consider "x < 1 / 256" | "1 / 256 \<le> x" "x < 1 / 128" | "1 / 128 \<le> x" "x < 1 / 64"
    | "1 / 64 \<le> x" "x < 1 / 32" | "1 / 32 \<le> x"
    by linarith
  then show ?thesis
  proof cases
    case 1
    with assms have "to_double x = of_int (round_half_even (x / 2 powi (- 9 - 52))) * 2 powi (- 9 - 52)"
      by (intro to_doubleI) (simp_all add: abs)
    with 1 show ?thesis by (simp add: field_simps)
  next
    case 2
    then have "to_double x = of_int (round_half_even (x / 2 powi (- 8 - 52))) * 2 powi (- 8 - 52)"
      by (intro to_doubleI) (simp_all add: abs)
    with 2 show ?thesis by (simp add: field_simps)
  next
    case 3
    then have "to_double x = of_int (round_half_even (x / 2 powi (- 7 - 52))) * 2 powi (- 7 - 52)"
      by (intro to_doubleI) (simp_all add: abs)
    with 3 show ?thesis by (simp add: field_simps)
  next
    case 4
    then have "to_double x = of_int (round_half_even (x / 2 powi (- 6 - 52))) * 2 powi (- 6 - 52)"
      by (intro to_doubleI) (simp_all add: abs)
    with 4 show ?thesis by (simp add: field_simps)
  next
    case 5
    with assms have "to_double x = of_int (round_half_even (x / 2 powi (- 5 - 52))) * 2 powi (- 5 - 52)"
      by (intro to_doubleI) (simp_all add: abs)
    with 5 show ?thesis by (simp add: field_simps)
  qed
qed

lemma timestep_double_value: "timestep_double = 1152921504606847 / 2 ^ 58"
  by (simp add: timestep_double_def simulationRate_def to_double_range round_half_even_def)

lemma dbl48: "to_double (6 / 125) = 3458764513820541 / 2 ^ 56"
  by (simp add: to_double_range round_half_even_def)


lemma to_double_zero: "to_double 0 = 0"
  by (simp add: to_double_def)

section \<open>The loop in double arithmetic\<close>

lemma updateLoop_double_scenario:
  "updateLoop_double \<lparr>accumulator = a\<rparr> (scenarioPlayer\<lparr>velocity := Vector3 0 v 0\<rparr>) scenarioWorld =
     (if timestep_double \<le> a
      then updateLoop_double \<lparr>accumulator = to_double (a - timestep_double)\<rparr>
             (scenarioPlayer\<lparr>velocity := Vector3 0 (v - 16 / 125) 0\<rparr>) scenarioWorld
      else Some (Inr (\<lparr>accumulator = a\<rparr>, scenarioPlayer\<lparr>velocity := Vector3 0 v 0\<rparr>)))"
  by (subst updateLoop_double.simps) (simp add: fixedStep_scenario)

lemmas double_eval = updateLoop_double_scenario timestep_double_value to_double_range
  to_double_zero round_half_even_def

lemma update_double_48:
  "update_double (to_double (6 / 125)) \<lparr>accumulator = 0\<rparr> scenarioPlayer scenarioWorld
     = Some (Inr (\<lparr>accumulator = 1152921504606843 / 2 ^ 58\<rparr>,
                  scenarioPlayer\<lparr>velocity := Vector3 0 (- (176 / 125)) 0\<rparr>))"
proof -
  have "update_double (to_double (6 / 125)) \<lparr>accumulator = 0\<rparr> scenarioPlayer scenarioWorld
      = updateLoop_double \<lparr>accumulator = 3458764513820541 / 2 ^ 56\<rparr>
          (scenarioPlayer\<lparr>velocity := Vector3 0 0 0\<rparr>) scenarioWorld"
    by (simp add: update_double_def scenarioPlayer_at_rest to_double_range round_half_even_def)
  also have "\<dots> = Some (Inr (\<lparr>accumulator = 1152921504606843 / 2 ^ 58\<rparr>,
                  scenarioPlayer\<lparr>velocity := Vector3 0 (- (176 / 125)) 0\<rparr>))"
    by (simp add: double_eval)
  finally show ?thesis .
qed

lemma update_double_36:
  "update_double (to_double (9 / 250)) \<lparr>accumulator = 0\<rparr> scenarioPlayer scenarioWorld
     = Some (Inr (\<lparr>accumulator = 0\<rparr>,
                  scenarioPlayer\<lparr>velocity := Vector3 0 (- (144 / 125)) 0\<rparr>))"
proof -
  have "update_double (to_double (9 / 250)) \<lparr>accumulator = 0\<rparr> scenarioPlayer scenarioWorld
      = updateLoop_double \<lparr>accumulator = 5188146770730811 / 2 ^ 57\<rparr>
          (scenarioPlayer\<lparr>velocity := Vector3 0 0 0\<rparr>) scenarioWorld"
    by (simp add: update_double_def scenarioPlayer_at_rest to_double_range round_half_even_def)
  also have "\<dots> = Some (Inr (\<lparr>accumulator = 0\<rparr>,
                  scenarioPlayer\<lparr>velocity := Vector3 0 (- (144 / 125)) 0\<rparr>))"
    by (simp add: double_eval)
  finally show ?thesis .
qed

lemma update_double_18:
  "update_double (to_double (9 / 500)) \<lparr>accumulator = 0\<rparr> scenarioPlayer scenarioWorld
     = Some (Inr (\<lparr>accumulator = 576460752303423 / 2 ^ 58\<rparr>,
                  scenarioPlayer\<lparr>velocity := Vector3 0 (- (64 / 125)) 0\<rparr>))"
proof -
  have "update_double (to_double (9 / 500)) \<lparr>accumulator = 0\<rparr> scenarioPlayer scenarioWorld
      = updateLoop_double \<lparr>accumulator = 5188146770730811 / 2 ^ 58\<rparr>
          (scenarioPlayer\<lparr>velocity := Vector3 0 0 0\<rparr>) scenarioWorld"
    by (simp add: update_double_def scenarioPlayer_at_rest to_double_range round_half_even_def)
  also have "\<dots> = Some (Inr (\<lparr>accumulator = 576460752303423 / 2 ^ 58\<rparr>,
                  scenarioPlayer\<lparr>velocity := Vector3 0 (- (64 / 125)) 0\<rparr>))"
    by (simp add: double_eval)
  finally show ?thesis .
qed

lemma update_double_18_again:
  "update_double (to_double (9 / 500)) \<lparr>accumulator = 576460752303423 / 2 ^ 58\<rparr>
       (scenarioPlayer\<lparr>velocity := Vector3 0 (- (64 / 125)) 0\<rparr>) scenarioWorld
     = Some (Inr (\<lparr>accumulator = 576460752303423 / 2 ^ 57\<rparr>,
                  scenarioPlayer\<lparr>velocity := Vector3 0 (- (128 / 125)) 0\<rparr>))"
proof -
  have "update_double (to_double (9 / 500)) \<lparr>accumulator = 576460752303423 / 2 ^ 58\<rparr>
       (scenarioPlayer\<lparr>velocity := Vector3 0 (- (64 / 125)) 0\<rparr>) scenarioWorld
      = updateLoop_double \<lparr>accumulator = 2882303761517117 / 2 ^ 57\<rparr>
          (scenarioPlayer\<lparr>velocity := Vector3 0 (- (64 / 125)) 0\<rparr>) scenarioWorld"
    by (simp add: update_double_def to_double_range round_half_even_def)
  also have "\<dots> = Some (Inr (\<lparr>accumulator = 576460752303423 / 2 ^ 57\<rparr>,
                  scenarioPlayer\<lparr>velocity := Vector3 0 (- (128 / 125)) 0\<rparr>))"
    by (simp add: double_eval)
  finally show ?thesis .
qed


section \<open>What every returning call guarantees\<close>

lemma round_half_even_nonneg: "0 \<le> y \<Longrightarrow> 0 \<le> round_half_even y"
  by (simp add: round_half_even_def Let_def)

lemma to_double_nonneg:
  assumes "0 \<le> x"
  shows "0 \<le> to_double x"
proof -
  have "0 \<le> x / 2 powi ulp_exponent x"
    using assms by simp
  then have "0 \<le> round_half_even (x / 2 powi ulp_exponent x)"
    by (rule round_half_even_nonneg)
  then show ?thesis
    by (simp add: to_double_def)
qed

lemma updateLoop_double_result:
  assumes "updateLoop_double ph player world = Some r"
  shows "\<forall>ph' p'. r = Inr (ph', p') \<longrightarrow>
           accumulator ph' < timestep_double \<and>
           (0 \<le> accumulator ph \<longrightarrow> 0 \<le> accumulator ph') \<and>
           (\<exists>n. fixedSteps n player world = Inr p')"
proof (rule updateLoop_double.raw_induct [OF _ assms])
  fix loop :: "Physics \<Rightarrow> Player \<Rightarrow> World \<Rightarrow> (js_error + (Physics \<times> Player)) option"
  fix ph player world r
  assume IH: "\<And>ph player world r. loop ph player world = Some r \<Longrightarrow>
      \<forall>ph' p'. r = Inr (ph', p') \<longrightarrow>
           accumulator ph' < timestep_double \<and>
           (0 \<le> accumulator ph \<longrightarrow> 0 \<le> accumulator ph') \<and>
           (\<exists>n. fixedSteps n player world = Inr p')"
  assume body: "(if timestep_double \<le> accumulator ph
      then case fixedStep player world of
             Inl e \<Rightarrow> Some (Inl e)
           | Inr p' \<Rightarrow>
               loop (ph\<lparr>accumulator := to_double (accumulator ph - timestep_double)\<rparr>) p' world
      else Some (Inr (ph, player))) = Some r"
  show "\<forall>ph' p'. r = Inr (ph', p') \<longrightarrow>
           accumulator ph' < timestep_double \<and>
           (0 \<le> accumulator ph \<longrightarrow> 0 \<le> accumulator ph') \<and>
           (\<exists>n. fixedSteps n player world = Inr p')"
  proof (cases "timestep_double \<le> accumulator ph")
    case False
    with body have "r = Inr (ph, player)"
      by simp
    moreover have "fixedSteps 0 player world = Inr player"
      by simp
    ultimately show ?thesis
      using False by (metis Inr_inject Pair_inject not_le)
  next
    case True
    show ?thesis
    proof (cases "fixedStep player world")
      case (Inl e)
      with True body show ?thesis by auto
    next
      case (Inr q)
      let ?ph = "ph\<lparr>accumulator := to_double (accumulator ph - timestep_double)\<rparr>"
      from True Inr body have run: "loop ?ph q world = Some r"
        by simp
      have nonneg: "0 \<le> accumulator ?ph"
        using True by (simp add: to_double_nonneg)
      show ?thesis
      proof (intro allI impI)
        fix ph' p'
        assume r: "r = Inr (ph', p')"
        with IH [OF run] nonneg obtain n where
          "accumulator ph' < timestep_double" "0 \<le> accumulator ph'"
          "fixedSteps n q world = Inr p'"
          by blast
        moreover from this Inr have "fixedSteps (Suc n) player world = Inr p'"
          by simp
        ultimately show "accumulator ph' < timestep_double \<and>
           (0 \<le> accumulator ph \<longrightarrow> 0 \<le> accumulator ph') \<and>
           (\<exists>n. fixedSteps n player world = Inr p')"
          by blast
      qed
    qed
  qed
qed

lemma update_double_result:
  assumes "update_double dt ph player world = Some (Inr (ph', p'))"
    and "0 \<le> accumulator ph + dt"
  shows "0 \<le> accumulator ph'" and "accumulator ph' < timestep_double"
    and "\<exists>n. fixedSteps n player world = Inr p'"
proof -
  let ?ph = "ph\<lparr>accumulator := to_double (accumulator ph + dt)\<rparr>"
  have "0 \<le> accumulator ?ph"
    using assms(2) by (simp add: to_double_nonneg)
  with updateLoop_double_result [of ?ph player world "Inr (ph', p')"] assms(1)
  show "0 \<le> accumulator ph'" and "accumulator ph' < timestep_double"
    and "\<exists>n. fixedSteps n player world = Inr p'"
    by (simp_all add: update_double_def)
qed

section \<open>The calls that return\<close>

lemma round_half_even_error: "\<bar>of_int (round_half_even y) - y\<bar> \<le> 1 / 2"
proof -
  have "of_int \<lfloor>y\<rfloor> \<le> y" "y < of_int \<lfloor>y\<rfloor> + 1"
    by linarith+
  then show ?thesis
    by (simp add: round_half_even_def Let_def abs_le_iff)
qed

lemma to_double_error: "\<bar>to_double x - x\<bar> \<le> 2 powi ulp_exponent x / 2"
proof (cases "x = 0")
  case True
  then show ?thesis by (simp add: to_double_def)
next
  case False
  let ?u = "(2::real) powi ulp_exponent x"
  have u: "0 < ?u"
    by simp
  have "to_double x - x = (of_int (round_half_even (x / ?u)) - x / ?u) * ?u"
    using False u by (simp add: to_double_def algebra_simps)
  then have "\<bar>to_double x - x\<bar> = \<bar>of_int (round_half_even (x / ?u)) - x / ?u\<bar> * ?u"
    using u by (simp add: abs_mult)
  also have "\<dots> \<le> 1 / 2 * ?u"
    using round_half_even_error [of "x / ?u"] u by (intro mult_right_mono) simp_all
  finally show ?thesis by simp
qed

lemma ulp_exponent_le:
  assumes "0 < x" and "x \<le> 2 ^ 40"
  shows "(2::real) powi ulp_exponent x \<le> 1 / 2 ^ 12"
proof -
  have "x \<le> 2 powr 40"
    using assms(2) by simp
  then have "log 2 x \<le> 40"
    using assms(1) by (simp add: log_le_iff)
  then have "\<lfloor>log 2 x\<rfloor> \<le> 40"
    by linarith
  then have "ulp_exponent x \<le> - 12"
    using assms(1) by (simp add: ulp_exponent_def)
  then have "(2::real) powi ulp_exponent x \<le> 2 powi (- 12)"
    by (intro power_int_increasing) simp_all
  then show ?thesis
    by (simp add: power_int_minus field_simps)
qed

lemma to_double_le:
  assumes "0 \<le> x" and "x \<le> 2 ^ 40"
  shows "to_double x \<le> x + 1 / 2 ^ 13"
proof (cases "x = 0")
  case True
  then show ?thesis by (simp add: to_double_def)
next
  case False
  with assms have "(2::real) powi ulp_exponent x \<le> 1 / 2 ^ 12"
    by (intro ulp_exponent_le) simp_all
  with to_double_error [of x] have "\<bar>to_double x - x\<bar> \<le> 1 / 8192"
    by simp
  then have "to_double x - x \<le> 1 / 8192"
    by (rule order_trans [OF abs_ge_self])
  then show ?thesis
    by simp
qed

lemma updateLoop_double_returns:
  assumes "well_formed world"
  shows "0 \<le> accumulator ph \<Longrightarrow> accumulator ph \<le> 2 ^ 40 \<Longrightarrow>
         \<exists>ph' p'. updateLoop_double ph player world = Some (Inr (ph', p'))"
proof (induction "nat \<lfloor>accumulator ph * 512\<rfloor>" arbitrary: ph player rule: less_induct)
  case less
  show ?case
  proof (cases "timestep_double \<le> accumulator ph")
    case False
    then show ?thesis
      by (subst updateLoop_double.simps) simp
  next
    case True
    let ?a = "to_double (accumulator ph - timestep_double)"
    let ?ph = "ph\<lparr>accumulator := ?a\<rparr>"
    from fixedStep_well_formed [OF assms] obtain q where q: "fixedStep player world = Inr q"
      by blast
    have ts: "1 / 256 \<le> timestep_double" "timestep_double \<le> 1 / 128"
      by (simp_all add: timestep_double_value)
    have d: "0 \<le> accumulator ph - timestep_double" "accumulator ph - timestep_double \<le> 2 ^ 40"
      using True less.prems ts by simp_all
    have a: "0 \<le> ?a" "?a \<le> accumulator ph - timestep_double + 1 / 2 ^ 13"
      using to_double_nonneg [OF d(1)] to_double_le [OF d] by simp_all
    with ts have drop: "?a * 512 \<le> accumulator ph * 512 - 1"
      by simp
    then have "\<lfloor>?a * 512\<rfloor> \<le> \<lfloor>accumulator ph * 512 - 1\<rfloor>"
      by (rule floor_mono)
    moreover have "1 \<le> \<lfloor>accumulator ph * 512\<rfloor>"
      using True ts by linarith
    ultimately have "nat \<lfloor>accumulator ?ph * 512\<rfloor> < nat \<lfloor>accumulator ph * 512\<rfloor>"
      by simp
    moreover have "0 \<le> accumulator ?ph" "accumulator ?ph \<le> 2 ^ 40"
      using a ts less.prems by simp_all
    ultimately have "\<exists>ph' p'. updateLoop_double ?ph q world = Some (Inr (ph', p'))"
      by (rule less.hyps)
    with True q show ?thesis
      by (subst updateLoop_double.simps) simp
  qed
qed

lemma update_double_returns:
  assumes "well_formed world" and "0 \<le> accumulator ph + dt" and "accumulator ph + dt \<le> 2 ^ 39"
  shows "\<exists>ph' p'. update_double dt ph player world = Some (Inr (ph', p'))"
proof -
  let ?ph = "ph\<lparr>accumulator := to_double (accumulator ph + dt)\<rparr>"
  have "accumulator ph + dt \<le> 2 ^ 40"
    using assms(3) by simp
  with assms(2) have "to_double (accumulator ph + dt) \<le> accumulator ph + dt + 1 / 2 ^ 13"
    by (rule to_double_le)
  with assms(3) have "accumulator ?ph \<le> 2 ^ 40"
    by simp
  moreover have "0 \<le> accumulator ?ph"
    using assms(2) by (simp add: to_double_nonneg)
  ultimately show ?thesis
    unfolding update_double_def by (intro updateLoop_double_returns [OF assms(1)])
qed


section \<open>The rounding error of a run\<close>

text \<open>
  Below \<open>2\<^sup>1\<^sup>6\<close> a rounding moves the accumulator by at most \<open>2\<^sup>-\<^sup>3\<^sup>7\<close>. A call that executes
  \<open>n\<close> fixed steps rounds \<open>n + 1\<close> times, so the accumulator it leaves is within
  \<open>(n + 1) / 2\<^sup>3\<^sup>7\<close> of the exact remainder.
\<close>

lemma ulp_exponent_bound:
  assumes "0 < x" and "x \<le> 2 ^ n"
  shows "(2::real) powi ulp_exponent x \<le> 2 powi (int n - 52)"
proof -
  have "x \<le> 2 powr (real n)"
    using assms(2) by (simp add: powr_realpow)
  then have "log 2 x \<le> real n"
    using assms(1) by (simp add: log_le_iff)
  then have "\<lfloor>log 2 x\<rfloor> \<le> int n"
    by linarith
  then have "ulp_exponent x \<le> int n - 52"
    using assms(1) by (simp add: ulp_exponent_def)
  then show ?thesis
    by (intro power_int_increasing) simp_all
qed

lemma to_double_error_16:
  assumes "0 \<le> x" and "x \<le> 2 ^ 16"
  shows "\<bar>to_double x - x\<bar> \<le> 1 / 2 ^ 37"
proof (cases "x = 0")
  case True
  then show ?thesis by (simp add: to_double_def)
next
  case False
  with assms have "(2::real) powi ulp_exponent x \<le> 2 powi (int 16 - 52)"
    by (intro ulp_exponent_bound) simp_all
  then have "(2::real) powi ulp_exponent x \<le> 1 / 2 ^ 36"
    by (simp add: power_int_minus field_simps)
  with to_double_error [of x] show ?thesis
    by simp
qed

lemma timestep_double_bounds: "1 / 256 \<le> timestep_double" "timestep_double \<le> 1 / 128"
  by (simp_all add: timestep_double_value)

lemma updateLoop_double_steps:
  assumes "updateLoop_double ph player world = Some r"
  shows "\<forall>ph' p'. r = Inr (ph', p') \<longrightarrow>
           (\<exists>n. fixedSteps n player world = Inr p' \<and>
              (0 \<le> accumulator ph \<longrightarrow> accumulator ph \<le> 2 ^ 16 \<longrightarrow>
                 \<bar>accumulator ph - real n * timestep_double - accumulator ph'\<bar> \<le> real n / 2 ^ 37))"
proof (rule updateLoop_double.raw_induct [OF _ assms])
  fix loop :: "Physics \<Rightarrow> Player \<Rightarrow> World \<Rightarrow> (js_error + (Physics \<times> Player)) option"
  fix ph player world r
  assume IH: "\<And>ph player world r. loop ph player world = Some r \<Longrightarrow>
      \<forall>ph' p'. r = Inr (ph', p') \<longrightarrow>
           (\<exists>n. fixedSteps n player world = Inr p' \<and>
              (0 \<le> accumulator ph \<longrightarrow> accumulator ph \<le> 2 ^ 16 \<longrightarrow>
                 \<bar>accumulator ph - real n * timestep_double - accumulator ph'\<bar> \<le> real n / 2 ^ 37))"
  assume body: "(if timestep_double \<le> accumulator ph
      then case fixedStep player world of
             Inl e \<Rightarrow> Some (Inl e)
           | Inr p' \<Rightarrow>
               loop (ph\<lparr>accumulator := to_double (accumulator ph - timestep_double)\<rparr>) p' world
      else Some (Inr (ph, player))) = Some r"
  show "\<forall>ph' p'. r = Inr (ph', p') \<longrightarrow>
           (\<exists>n. fixedSteps n player world = Inr p' \<and>
              (0 \<le> accumulator ph \<longrightarrow> accumulator ph \<le> 2 ^ 16 \<longrightarrow>
                 \<bar>accumulator ph - real n * timestep_double - accumulator ph'\<bar> \<le> real n / 2 ^ 37))"
  proof (intro allI impI)
    fix ph' p'
    assume r: "r = Inr (ph', p')"
    show "\<exists>n. fixedSteps n player world = Inr p' \<and>
              (0 \<le> accumulator ph \<longrightarrow> accumulator ph \<le> 2 ^ 16 \<longrightarrow>
                 \<bar>accumulator ph - real n * timestep_double - accumulator ph'\<bar> \<le> real n / 2 ^ 37)"
    proof (cases "timestep_double \<le> accumulator ph")
      case False
      with body r have "ph' = ph" "p' = player"
        by simp_all
      then have "fixedSteps 0 player world = Inr p' \<and>
          (0 \<le> accumulator ph \<longrightarrow> accumulator ph \<le> 2 ^ 16 \<longrightarrow>
             \<bar>accumulator ph - real 0 * timestep_double - accumulator ph'\<bar> \<le> real 0 / 2 ^ 37)"
        by simp
      then show ?thesis ..
    next
      case True
      show ?thesis
      proof (cases "fixedStep player world")
        case (Inl e)
        with True body r show ?thesis by auto
      next
        case (Inr q)
        let ?a = "to_double (accumulator ph - timestep_double)"
        let ?ph = "ph\<lparr>accumulator := ?a\<rparr>"
        from True Inr body have run: "loop ?ph q world = Some r"
          by simp
        from IH [OF run] r obtain n where n: "fixedSteps n q world = Inr p'"
          and e: "0 \<le> accumulator ?ph \<longrightarrow> accumulator ?ph \<le> 2 ^ 16 \<longrightarrow>
                 \<bar>accumulator ?ph - real n * timestep_double - accumulator ph'\<bar> \<le> real n / 2 ^ 37"
          by blast
        from n Inr have "fixedSteps (Suc n) player world = Inr p'"
          by simp
        moreover have "0 \<le> accumulator ph \<longrightarrow> accumulator ph \<le> 2 ^ 16 \<longrightarrow>
            \<bar>accumulator ph - real (Suc n) * timestep_double - accumulator ph'\<bar>
              \<le> real (Suc n) / 2 ^ 37"
        proof (intro impI)
          assume lo: "0 \<le> accumulator ph" and hi: "accumulator ph \<le> 2 ^ 16"
          have d: "0 \<le> accumulator ph - timestep_double"
            "accumulator ph - timestep_double \<le> 2 ^ 16"
            using True hi timestep_double_bounds by simp_all
          have err: "\<bar>?a - (accumulator ph - timestep_double)\<bar> \<le> 1 / 2 ^ 37"
            by (rule to_double_error_16 [OF d])
          have a: "0 \<le> ?a"
            by (rule to_double_nonneg [OF d(1)])
          have "(1::real) / 2 ^ 37 \<le> 1 / 256"
            by simp
          then have "?a \<le> 2 ^ 16"
            using err hi timestep_double_bounds by linarith
          with a e have e': "\<bar>?a - real n * timestep_double - accumulator ph'\<bar> \<le> real n / 2 ^ 37"
            by simp
          have "real (Suc n) * timestep_double = real n * timestep_double + timestep_double"
            "real (Suc n) / 2 ^ 37 = real n / 2 ^ 37 + 1 / 2 ^ 37"
            by (simp_all add: algebra_simps add_divide_distrib)
          with err e' show
            "\<bar>accumulator ph - real (Suc n) * timestep_double - accumulator ph'\<bar>
               \<le> real (Suc n) / 2 ^ 37"
            by linarith
        qed
        ultimately show ?thesis by blast
      qed
    qed
  qed
qed

lemma update_double_steps:
  assumes "update_double dt ph player world = Some (Inr (ph', p'))"
  shows "\<exists>n. fixedSteps n player world = Inr p' \<and>
           (0 \<le> accumulator ph + dt \<longrightarrow> accumulator ph + dt \<le> 2 ^ 15 \<longrightarrow>
              \<bar>accumulator ph + dt - real n * timestep_double - accumulator ph'\<bar>
                \<le> (real n + 1) / 2 ^ 37)"
proof -
  let ?s = "accumulator ph + dt"
  let ?a = "to_double ?s"
  let ?ph = "ph\<lparr>accumulator := ?a\<rparr>"
  from assms have run: "updateLoop_double ?ph player world = Some (Inr (ph', p'))"
    by (simp add: update_double_def)
  from updateLoop_double_steps [OF run] obtain n where n: "fixedSteps n player world = Inr p'"
    and e: "0 \<le> accumulator ?ph \<longrightarrow> accumulator ?ph \<le> 2 ^ 16 \<longrightarrow>
           \<bar>accumulator ?ph - real n * timestep_double - accumulator ph'\<bar> \<le> real n / 2 ^ 37"
    by blast
  have "0 \<le> ?s \<longrightarrow> ?s \<le> 2 ^ 15 \<longrightarrow>
      \<bar>?s - real n * timestep_double - accumulator ph'\<bar> \<le> (real n + 1) / 2 ^ 37"
  proof (intro impI)
    assume lo: "0 \<le> ?s" and hi: "?s \<le> 2 ^ 15"
    have hi': "?s \<le> 2 ^ 16"
      using hi by simp
    have err: "\<bar>?a - ?s\<bar> \<le> 1 / 2 ^ 37"
      by (rule to_double_error_16 [OF lo hi'])
    have a: "0 \<le> ?a"
      by (rule to_double_nonneg [OF lo])
    have "(1::real) / 2 ^ 37 \<le> 1" "(2::real) ^ 15 + 1 \<le> 2 ^ 16"
      by simp_all
    then have "?a \<le> 2 ^ 16"
      using err hi by linarith
    with a e have e': "\<bar>?a - real n * timestep_double - accumulator ph'\<bar> \<le> real n / 2 ^ 37"
      by simp
    have "(real n + 1) / 2 ^ 37 = real n / 2 ^ 37 + 1 / 2 ^ 37"
      by (simp add: add_divide_distrib)
    with err e' show "\<bar>?s - real n * timestep_double - accumulator ph'\<bar> \<le> (real n + 1) / 2 ^ 37"
      by linarith
  qed
  with n show ?thesis
    by blast
qed

lemma updates_double_steps:
  assumes "updates_double dts ph player world = Some (Inr (ph', p'))"
  shows "\<exists>n. fixedSteps n player world = Inr p' \<and>
           (0 \<le> accumulator ph \<longrightarrow> accumulator ph < timestep_double \<longrightarrow>
            (\<forall>dt\<in>set dts. 0 \<le> dt) \<longrightarrow> sum_list dts \<le> 2 ^ 14 \<longrightarrow>
              0 \<le> accumulator ph' \<and> accumulator ph' < timestep_double \<and>
              \<bar>accumulator ph + sum_list dts - real n * timestep_double - accumulator ph'\<bar>
                \<le> (real n + real (length dts)) / 2 ^ 37)"
  using assms
proof (induction dts arbitrary: ph player)
  case Nil
  then have "ph' = ph" "p' = player"
    by simp_all
  then have "fixedSteps 0 player world = Inr p' \<and>
           (0 \<le> accumulator ph \<longrightarrow> accumulator ph < timestep_double \<longrightarrow>
            (\<forall>dt\<in>set []. 0 \<le> dt) \<longrightarrow> sum_list [] \<le> 2 ^ 14 \<longrightarrow>
              0 \<le> accumulator ph' \<and> accumulator ph' < timestep_double \<and>
              \<bar>accumulator ph + sum_list [] - real 0 * timestep_double - accumulator ph'\<bar>
                \<le> (real 0 + real (length ([]::real list))) / 2 ^ 37)"
    by simp
  then show ?case ..
next
  case (Cons dt dts)
  from Cons.prems obtain ph1 p1 where
    first: "update_double dt ph player world = Some (Inr (ph1, p1))"
    and rest: "updates_double dts ph1 p1 world = Some (Inr (ph', p'))"
    by (auto split: option.splits sum.splits)
  from update_double_steps [OF first] obtain m where m: "fixedSteps m player world = Inr p1"
    and em: "0 \<le> accumulator ph + dt \<longrightarrow> accumulator ph + dt \<le> 2 ^ 15 \<longrightarrow>
              \<bar>accumulator ph + dt - real m * timestep_double - accumulator ph1\<bar>
                \<le> (real m + 1) / 2 ^ 37"
    by blast
  from Cons.IH [OF rest] obtain k where k: "fixedSteps k p1 world = Inr p'"
    and ek: "0 \<le> accumulator ph1 \<longrightarrow> accumulator ph1 < timestep_double \<longrightarrow>
            (\<forall>dt\<in>set dts. 0 \<le> dt) \<longrightarrow> sum_list dts \<le> 2 ^ 14 \<longrightarrow>
              0 \<le> accumulator ph' \<and> accumulator ph' < timestep_double \<and>
              \<bar>accumulator ph1 + sum_list dts - real k * timestep_double - accumulator ph'\<bar>
                \<le> (real k + real (length dts)) / 2 ^ 37"
    by blast
  from m k have "fixedSteps (m + k) player world = Inr p'"
    by (simp add: fixedSteps_add)
  moreover have "0 \<le> accumulator ph \<longrightarrow> accumulator ph < timestep_double \<longrightarrow>
            (\<forall>d\<in>set (dt # dts). 0 \<le> d) \<longrightarrow> sum_list (dt # dts) \<le> 2 ^ 14 \<longrightarrow>
              0 \<le> accumulator ph' \<and> accumulator ph' < timestep_double \<and>
              \<bar>accumulator ph + sum_list (dt # dts) - real (m + k) * timestep_double
                   - accumulator ph'\<bar>
                \<le> (real (m + k) + real (length (dt # dts))) / 2 ^ 37"
  proof (intro impI)
    assume lo: "0 \<le> accumulator ph" and hi: "accumulator ph < timestep_double"
      and pos: "\<forall>d\<in>set (dt # dts). 0 \<le> d" and total: "sum_list (dt # dts) \<le> 2 ^ 14"
    from pos have dt: "0 \<le> dt" and dts: "\<forall>d\<in>set dts. 0 \<le> d"
      by simp_all
    from dts have S: "0 \<le> sum_list dts"
      by (intro sum_list_nonneg) simp
    from total have T: "dt + sum_list dts \<le> 2 ^ 14"
      by simp
    have "(2::real) ^ 14 + 1 \<le> 2 ^ 15"
      by simp
    with lo hi dt S T timestep_double_bounds have s: "0 \<le> accumulator ph + dt"
      "accumulator ph + dt \<le> 2 ^ 15" "sum_list dts \<le> 2 ^ 14"
      by linarith+
    from em s have e1: "\<bar>accumulator ph + dt - real m * timestep_double - accumulator ph1\<bar>
                \<le> (real m + 1) / 2 ^ 37"
      by blast
    from update_double_result [OF first s(1)] have a1: "0 \<le> accumulator ph1"
      "accumulator ph1 < timestep_double"
      by simp_all
    from ek a1 dts s(3) have a': "0 \<le> accumulator ph'" "accumulator ph' < timestep_double"
      and e2: "\<bar>accumulator ph1 + sum_list dts - real k * timestep_double - accumulator ph'\<bar>
                \<le> (real k + real (length dts)) / 2 ^ 37"
      by blast+
    have "real (m + k) * timestep_double = real m * timestep_double + real k * timestep_double"
      "(real (m + k) + real (length (dt # dts))) / 2 ^ 37
         = (real m + 1) / 2 ^ 37 + (real k + real (length dts)) / 2 ^ 37"
      "sum_list (dt # dts) = dt + sum_list dts"
      by (simp_all add: algebra_simps add_divide_distrib)
    with e1 e2 have "\<bar>accumulator ph + sum_list (dt # dts) - real (m + k) * timestep_double
                   - accumulator ph'\<bar>
                \<le> (real (m + k) + real (length (dt # dts))) / 2 ^ 37"
      by linarith
    with a' show "0 \<le> accumulator ph' \<and> accumulator ph' < timestep_double \<and>
              \<bar>accumulator ph + sum_list (dt # dts) - real (m + k) * timestep_double
                   - accumulator ph'\<bar>
                \<le> (real (m + k) + real (length (dt # dts))) / 2 ^ 37"
      by blast
  qed
  ultimately show ?case
    by blast
qed

lemma updates_double_returns:
  assumes "well_formed world"
  shows "0 \<le> accumulator ph \<Longrightarrow> accumulator ph < timestep_double \<Longrightarrow>
         \<forall>dt\<in>set dts. 0 \<le> dt \<Longrightarrow> sum_list dts \<le> 2 ^ 14 \<Longrightarrow>
         \<exists>ph' p'. updates_double dts ph player world = Some (Inr (ph', p'))"
proof (induction dts arbitrary: ph player)
  case Nil
  show ?case by simp
next
  case (Cons dt dts)
  from Cons.prems(3) have dt: "0 \<le> dt" and dts: "\<forall>d\<in>set dts. 0 \<le> d"
    by simp_all
  from dts have S: "0 \<le> sum_list dts"
    by (intro sum_list_nonneg) simp
  from Cons.prems(4) have T: "dt + sum_list dts \<le> 2 ^ 14"
    by simp
  have "(2::real) ^ 14 + 1 \<le> 2 ^ 39"
    by simp
  with Cons.prems(1,2) dt S T timestep_double_bounds have s: "0 \<le> accumulator ph + dt"
    "accumulator ph + dt \<le> 2 ^ 39" "sum_list dts \<le> 2 ^ 14"
    by linarith+
  from update_double_returns [OF assms s(1,2)] obtain ph1 p1 where
    first: "update_double dt ph player world = Some (Inr (ph1, p1))"
    by blast
  from update_double_result [OF first s(1)] have "0 \<le> accumulator ph1"
    "accumulator ph1 < timestep_double"
    by simp_all
  from Cons.IH [OF this dts s(3)] obtain ph' p' where
    "updates_double dts ph1 p1 world = Some (Inr (ph', p'))"
    by blast
  with first show ?case
    by simp
qed

text \<open>
  A remainder in \<open>[0, timestep)\<close> that is within \<open>2\<^sup>-\<^sup>1\<^sup>0\<close> of the exact one pins the number
  of steps to the quotient or one of its two neighbours.
\<close>

lemma count_near_floor:
  assumes "0 \<le> a'" and "a' < timestep_double"
    and "\<bar>s - real n * timestep_double - a'\<bar> \<le> 1 / 1024"
  shows "\<bar>int n - \<lfloor>s / timestep_double\<rfloor>\<bar> \<le> 1"
proof -
  let ?t = timestep_double
  let ?q = "\<lfloor>s / ?t\<rfloor>"
  define X where "X = real n * ?t"
  define Y where "Y = of_int ?q * ?t"
  have t: "0 < ?t" "1 / 1024 < ?t"
    using timestep_double_bounds by simp_all
  have "of_int ?q \<le> s / ?t"
    by (rule of_int_floor_le)
  then have q1: "Y \<le> s"
    unfolding Y_def by (simp only: pos_le_divide_eq [OF t(1)])
  have "s / ?t < of_int ?q + 1"
    by linarith
  then have "s < (of_int ?q + 1) * ?t"
    by (simp only: pos_divide_less_eq [OF t(1)])
  then have q2: "s < Y + ?t"
    unfolding Y_def by (simp only: distrib_right mult_1)
  have e: "\<bar>s - X - a'\<bar> \<le> 1 / 1024"
    unfolding X_def by (rule assms(3))
  from assms(1,2) q1 q2 e t have "X - Y < 2 * ?t" "Y - X < 2 * ?t"
    by linarith+
  then have "(real n - of_int ?q) * ?t < 2 * ?t" "(of_int ?q - real n) * ?t < 2 * ?t"
    unfolding X_def Y_def by (simp_all only: left_diff_distrib)
  then have "real n - of_int ?q < 2" "of_int ?q - real n < 2"
    using t(1) by (simp_all only: mult_less_cancel_right_pos)
  then have "real_of_int (int n - ?q) < real_of_int 2" "real_of_int (?q - int n) < real_of_int 2"
    by simp_all
  then have "int n - ?q < 2" "?q - int n < 2"
    by (simp_all only: of_int_less_iff)
  then show ?thesis
    by linarith
qed

lemma steps_bound:
  assumes "0 \<le> a'" and "\<bar>s - real n * timestep_double - a'\<bar> \<le> (real n + real m) / 2 ^ 37"
    and "s \<le> 2 ^ 15" and "m \<le> 2 ^ 20"
  shows "(real n + real m) / 2 ^ 37 \<le> 1 / 1024"
proof -
  define X where "X = real n * timestep_double"
  define E where "E = (real n + real m) / 2 ^ 37"
  have m: "real m \<le> 1048576"
    using assms(4) of_nat_le_iff [of m "2 ^ 20", where 'a = real] by simp
  have "real n * (1 / 256) \<le> X"
    unfolding X_def using timestep_double_bounds by (intro mult_left_mono) simp_all
  then have x: "real n \<le> 256 * X"
    by simp
  have "\<bar>s - X - a'\<bar> \<le> E"
    unfolding X_def E_def by (rule assms(2))
  with assms(1) have "X \<le> s + E"
    by linarith
  moreover have E: "137438953472 * E = real n + real m"
    by (simp add: E_def)
  moreover have "s \<le> 32768"
    using assms(3) by simp
  ultimately have "real n \<le> 16777216"
    using m x by linarith
  with m E have "E \<le> 1 / 1024"
    by linarith
  then show ?thesis
    unfolding E_def .
qed

lemma counts_close:
  assumes "0 \<le> a1" and "a1 < timestep_double" and "0 \<le> a2" and "a2 < timestep_double"
    and "\<bar>s - real n1 * timestep_double - a1\<bar> \<le> 1 / 1024"
    and "\<bar>s - real n2 * timestep_double - a2\<bar> \<le> 1 / 1024"
  shows "\<bar>int n1 - int n2\<bar> \<le> 1"
proof -
  let ?t = timestep_double
  define X where "X = real n1 * ?t"
  define Y where "Y = real n2 * ?t"
  have t: "0 < ?t" "1 / 256 \<le> ?t"
    using timestep_double_bounds by simp_all
  have "\<bar>s - X - a1\<bar> \<le> 1 / 1024" "\<bar>s - Y - a2\<bar> \<le> 1 / 1024"
    unfolding X_def Y_def by (rule assms(5), rule assms(6))
  with assms(1-4) t have "X - Y < 2 * ?t" "Y - X < 2 * ?t"
    by linarith+
  then have "(real n1 - real n2) * ?t < 2 * ?t" "(real n2 - real n1) * ?t < 2 * ?t"
    unfolding X_def Y_def by (simp_all only: left_diff_distrib)
  then have "real n1 - real n2 < 2" "real n2 - real n1 < 2"
    using t(1) by (simp_all only: mult_less_cancel_right_pos)
  then show ?thesis
    by linarith
qed


section \<open>The number of fixed steps of one call\<close>

text \<open>
  C6, as stated, fails in the arithmetic of the code. A call with the double 0.048 and an
  empty accumulator runs eleven fixed steps and leaves \<open>0.003999999999999986\<close>, although
  0.048 is twelve timesteps and a little more: each rounded subtraction can lose a little,
  and the twelfth comparison fails. The actor of the scenario, whose vertical velocity
  falls by \<open>gravity * timestep\<close> in every step, shows the count.
\<close>

theorem update_double_eleven_steps:
  "update_double (to_double (6 / 125)) \<lparr>accumulator = 0\<rparr> scenarioPlayer scenarioWorld
     = Some (Inr (\<lparr>accumulator = 1152921504606843 / 2 ^ 58\<rparr>,
                  scenarioPlayer\<lparr>velocity := Vector3 0 (- (176 / 125)) 0\<rparr>)) \<and>
   fixedSteps 11 scenarioPlayer scenarioWorld
     = Inr (scenarioPlayer\<lparr>velocity := Vector3 0 (- (176 / 125)) 0\<rparr>) \<and>
   fixedSteps 12 scenarioPlayer scenarioWorld
     = Inr (scenarioPlayer\<lparr>velocity := Vector3 0 (- (192 / 125)) 0\<rparr>) \<and>
   \<lfloor>(accumulator \<lparr>accumulator = 0\<rparr> + to_double (6 / 125)) / timestep_double\<rfloor> = 12"
proof -
  have "fixedSteps 11 scenarioPlayer scenarioWorld
     = Inr (scenarioPlayer\<lparr>velocity := Vector3 0 (- (176 / 125)) 0\<rparr>)"
    using fixedSteps_scenario [of 11 0] by (simp only: scenarioPlayer_at_rest) simp
  moreover have "fixedSteps 12 scenarioPlayer scenarioWorld
     = Inr (scenarioPlayer\<lparr>velocity := Vector3 0 (- (192 / 125)) 0\<rparr>)"
    using fixedSteps_scenario [of 12 0] by (simp only: scenarioPlayer_at_rest) simp
  moreover have "\<lfloor>(accumulator \<lparr>accumulator = 0\<rparr> + to_double (6 / 125)) / timestep_double\<rfloor> = 12"
    by (simp add: timestep_double_value to_double_range round_half_even_def)
  ultimately show ?thesis
    using update_double_48 by simp
qed

text \<open>
  C6, amended: for every call of \<open>update\<close> with \<open>dt \<ge> 0\<close> and the accumulator initially in
  \<open>[0, timestep)\<close>, when the call returns the accumulator again holds a value in
  \<open>[0, timestep)\<close> and the player is the result of the \<open>n\<close> fixed steps that were executed;
  when \<open>accumulator + dt\<close> is at most \<open>2\<^sup>1\<^sup>5\<close>, the accumulator is within \<open>(n + 1) / 2\<^sup>3\<^sup>7\<close>
  of \<open>accumulator + dt - n * timestep\<close>, and \<open>n\<close> differs from
  \<open>floor((accumulator + dt) / timestep)\<close> by at most one. The call does return when the
  world is well-formed and \<open>accumulator + dt\<close> is at most \<open>2\<^sup>3\<^sup>9\<close>.
\<close>

theorem update_double_accumulator:
  assumes "0 \<le> dt" and "0 \<le> accumulator ph" and "accumulator ph < timestep_double"
  shows "(\<forall>ph' p'. update_double dt ph player world = Some (Inr (ph', p')) \<longrightarrow>
            0 \<le> accumulator ph' \<and> accumulator ph' < timestep_double \<and>
            (\<exists>n. fixedSteps n player world = Inr p' \<and>
               (accumulator ph + dt \<le> 2 ^ 15 \<longrightarrow>
                  \<bar>accumulator ph + dt - real n * timestep_double - accumulator ph'\<bar>
                    \<le> (real n + 1) / 2 ^ 37 \<and>
                  \<bar>int n - \<lfloor>(accumulator ph + dt) / timestep_double\<rfloor>\<bar> \<le> 1))) \<and>
         (well_formed world \<and> accumulator ph + dt \<le> 2 ^ 39 \<longrightarrow>
            (\<exists>ph' p'. update_double dt ph player world = Some (Inr (ph', p'))))"
proof -
  have sum: "0 \<le> accumulator ph + dt"
    using assms(1,2) by simp
  have "0 \<le> accumulator ph' \<and> accumulator ph' < timestep_double \<and>
            (\<exists>n. fixedSteps n player world = Inr p' \<and>
               (accumulator ph + dt \<le> 2 ^ 15 \<longrightarrow>
                  \<bar>accumulator ph + dt - real n * timestep_double - accumulator ph'\<bar>
                    \<le> (real n + 1) / 2 ^ 37 \<and>
                  \<bar>int n - \<lfloor>(accumulator ph + dt) / timestep_double\<rfloor>\<bar> \<le> 1))"
    if call: "update_double dt ph player world = Some (Inr (ph', p'))" for ph' p'
  proof -
    note range = update_double_result(1,2) [OF call sum]
    from update_double_steps [OF call] sum obtain n where n: "fixedSteps n player world = Inr p'"
      and e: "accumulator ph + dt \<le> 2 ^ 15 \<longrightarrow>
              \<bar>accumulator ph + dt - real n * timestep_double - accumulator ph'\<bar>
                \<le> (real n + 1) / 2 ^ 37"
      by blast
    have "accumulator ph + dt \<le> 2 ^ 15 \<longrightarrow>
            \<bar>accumulator ph + dt - real n * timestep_double - accumulator ph'\<bar>
               \<le> (real n + 1) / 2 ^ 37 \<and>
            \<bar>int n - \<lfloor>(accumulator ph + dt) / timestep_double\<rfloor>\<bar> \<le> 1"
    proof
      assume hi: "accumulator ph + dt \<le> 2 ^ 15"
      with e have e': "\<bar>accumulator ph + dt - real n * timestep_double - accumulator ph'\<bar>
                \<le> (real n + real 1) / 2 ^ 37"
        by simp
      from steps_bound [OF range(1) e' hi] have "(real n + real 1) / 2 ^ 37 \<le> 1 / 1024"
        by simp
      with e' have "\<bar>accumulator ph + dt - real n * timestep_double - accumulator ph'\<bar> \<le> 1 / 1024"
        by (rule order_trans)
      from count_near_floor [OF range this] e hi
      show "\<bar>accumulator ph + dt - real n * timestep_double - accumulator ph'\<bar>
               \<le> (real n + 1) / 2 ^ 37 \<and>
            \<bar>int n - \<lfloor>(accumulator ph + dt) / timestep_double\<rfloor>\<bar> \<le> 1"
        by blast
    qed
    with range n show ?thesis
      by blast
  qed
  moreover have "\<exists>ph' p'. update_double dt ph player world = Some (Inr (ph', p'))"
    if "well_formed world \<and> accumulator ph + dt \<le> 2 ^ 39"
    using update_double_returns [OF _ sum] that by blast
  ultimately show ?thesis
    by blast
qed

theorem update_double_accumulator_witness:
  "(0::real) \<le> 1152921504606843 / 2 ^ 58 \<and>
   1152921504606843 / 2 ^ 58 < timestep_double \<and>
   (\<exists>n. fixedSteps n scenarioPlayer scenarioWorld
          = Inr (scenarioPlayer\<lparr>velocity := Vector3 0 (- (176 / 125)) 0\<rparr>) \<and>
        \<bar>int n - \<lfloor>(accumulator \<lparr>accumulator = 0\<rparr> + to_double (6 / 125)) / timestep_double\<rfloor>\<bar>
          \<le> 1) \<and>
   (\<exists>ph' p'. update_double (to_double (6 / 125)) \<lparr>accumulator = 0\<rparr> scenarioPlayer scenarioWorld
      = Some (Inr (ph', p')))"
proof -
  have a: "0 \<le> to_double (6 / 125)" "0 \<le> accumulator \<lparr>accumulator = 0\<rparr>"
    "accumulator \<lparr>accumulator = 0\<rparr> < timestep_double"
    by (simp_all add: timestep_double_value to_double_range round_half_even_def)
  have small: "accumulator \<lparr>accumulator = 0\<rparr> + to_double (6 / 125) \<le> 2 ^ 15"
    "accumulator \<lparr>accumulator = 0\<rparr> + to_double (6 / 125) \<le> 2 ^ 39"
    by (simp_all add: to_double_range round_half_even_def)
  note call = update_double_accumulator [OF a, of scenarioPlayer scenarioWorld]
  from call update_double_48 small(1) have
    "0 \<le> accumulator \<lparr>accumulator = 1152921504606843 / 2 ^ 58\<rparr> \<and>
     accumulator \<lparr>accumulator = 1152921504606843 / 2 ^ 58\<rparr> < timestep_double \<and>
     (\<exists>n. fixedSteps n scenarioPlayer scenarioWorld
          = Inr (scenarioPlayer\<lparr>velocity := Vector3 0 (- (176 / 125)) 0\<rparr>) \<and>
        \<bar>int n - \<lfloor>(accumulator \<lparr>accumulator = 0\<rparr> + to_double (6 / 125)) / timestep_double\<rfloor>\<bar>
          \<le> 1)"
    by blast
  moreover from call well_formed_scenarioWorld small(2) have
    "\<exists>ph' p'. update_double (to_double (6 / 125)) \<lparr>accumulator = 0\<rparr> scenarioPlayer scenarioWorld
      = Some (Inr (ph', p'))"
    by blast
  ultimately show ?thesis by simp
qed

section \<open>Two splits of the same time\<close>

lemma updates_double_one:
  "update_double d ph p w = Some (Inr (ph1, p1)) \<Longrightarrow>
   updates_double [d] ph p w = Some (Inr (ph1, p1))"
  by simp

lemma updates_double_two:
  "update_double d1 ph p w = Some (Inr (ph1, p1)) \<Longrightarrow>
   update_double d2 ph1 p1 w = Some (Inr (ph2, p2)) \<Longrightarrow>
   updates_double [d1, d2] ph p w = Some (Inr (ph2, p2))"
  by simp

lemmas two_frames = updates_double_two [OF update_double_18 update_double_18_again]

lemmas one_frame = updates_double_one [OF update_double_36]

text \<open>
  C3, as stated, fails in the arithmetic of the code. Two frames of 0.018 and one frame of
  0.036 last equally long, the doubles add up without rounding, and both runs start from
  the same state; the first run executes eight fixed steps and the second nine, so the
  actor ends with different velocities.
\<close>

theorem updates_double_split:
  "to_double (9 / 500) + to_double (9 / 500) = to_double (9 / 250) \<and>
   updates_double [to_double (9 / 500), to_double (9 / 500)] \<lparr>accumulator = 0\<rparr>
       scenarioPlayer scenarioWorld
     = Some (Inr (\<lparr>accumulator = 576460752303423 / 2 ^ 57\<rparr>,
                  scenarioPlayer\<lparr>velocity := Vector3 0 (- (128 / 125)) 0\<rparr>)) \<and>
   updates_double [to_double (9 / 250)] \<lparr>accumulator = 0\<rparr> scenarioPlayer scenarioWorld
     = Some (Inr (\<lparr>accumulator = 0\<rparr>,
                  scenarioPlayer\<lparr>velocity := Vector3 0 (- (144 / 125)) 0\<rparr>))"
proof -
  have "to_double (9 / 500) + to_double (9 / 500) = to_double (9 / 250)"
    by (simp add: to_double_range round_half_even_def)
  with two_frames one_frame show ?thesis
    by (intro conjI)
qed

text \<open>
  C3, amended: for a fixed grid, a fixed initial state with the accumulator in
  \<open>[0, timestep)\<close>, and any two sequences of non-negative real-time deltas summing to the
  same total \<open>T\<close>, with \<open>T\<close> at most \<open>2\<^sup>1\<^sup>4\<close> and at most \<open>2\<^sup>2\<^sup>0\<close> deltas in each sequence:
  on a well-formed grid both runs return; the final actor state of each run is the result
  of the fixed steps it executed, each of them the same computation \<open>fixedStep\<close>, which
  uses the constant timestep and never the raw delta; the accumulator of each run is within
  \<open>(n + length) / 2\<^sup>3\<^sup>7\<close> of \<open>accumulator + T - n * timestep\<close>; the two runs execute numbers
  of fixed steps that differ by at most one; and when they execute the same number, they
  end with identical position and velocity.
\<close>

theorem updates_double_fixed_steps:
  assumes "0 \<le> accumulator ph" and "accumulator ph < timestep_double"
    and "\<forall>dt\<in>set dts1. 0 \<le> dt" and "\<forall>dt\<in>set dts2. 0 \<le> dt"
    and "sum_list dts1 = T" and "sum_list dts2 = T" and "T \<le> 2 ^ 14"
    and "length dts1 \<le> 2 ^ 20" and "length dts2 \<le> 2 ^ 20"
  shows "(well_formed world \<longrightarrow>
            (\<exists>ph1 p1. updates_double dts1 ph player world = Some (Inr (ph1, p1))) \<and>
            (\<exists>ph2 p2. updates_double dts2 ph player world = Some (Inr (ph2, p2)))) \<and>
         (\<forall>ph1 p1 ph2 p2.
            updates_double dts1 ph player world = Some (Inr (ph1, p1)) \<and>
            updates_double dts2 ph player world = Some (Inr (ph2, p2)) \<longrightarrow>
            (\<exists>n1 n2. fixedSteps n1 player world = Inr p1 \<and> fixedSteps n2 player world = Inr p2 \<and>
               \<bar>accumulator ph + T - real n1 * timestep_double - accumulator ph1\<bar>
                 \<le> (real n1 + real (length dts1)) / 2 ^ 37 \<and>
               \<bar>accumulator ph + T - real n2 * timestep_double - accumulator ph2\<bar>
                 \<le> (real n2 + real (length dts2)) / 2 ^ 37 \<and>
               \<bar>int n1 - int n2\<bar> \<le> 1 \<and> (n1 = n2 \<longrightarrow> p1 = p2)))"
proof -
  have T1: "sum_list dts1 \<le> 2 ^ 14" and T2: "sum_list dts2 \<le> 2 ^ 14"
    using assms(5-7) by simp_all
  have "(2::real) ^ 14 + 1 \<le> 2 ^ 15"
    by simp
  with assms(2,7) timestep_double_bounds have s: "accumulator ph + T \<le> 2 ^ 15"
    by linarith
  have "\<exists>n1 n2. fixedSteps n1 player world = Inr p1 \<and> fixedSteps n2 player world = Inr p2 \<and>
               \<bar>accumulator ph + T - real n1 * timestep_double - accumulator ph1\<bar>
                 \<le> (real n1 + real (length dts1)) / 2 ^ 37 \<and>
               \<bar>accumulator ph + T - real n2 * timestep_double - accumulator ph2\<bar>
                 \<le> (real n2 + real (length dts2)) / 2 ^ 37 \<and>
               \<bar>int n1 - int n2\<bar> \<le> 1 \<and> (n1 = n2 \<longrightarrow> p1 = p2)"
    if run1: "updates_double dts1 ph player world = Some (Inr (ph1, p1))"
      and run2: "updates_double dts2 ph player world = Some (Inr (ph2, p2))"
    for ph1 p1 ph2 p2
  proof -
    from updates_double_steps [OF run1] assms(1,2,3) T1 obtain n1 where
      n1: "fixedSteps n1 player world = Inr p1"
      and a1: "0 \<le> accumulator ph1" "accumulator ph1 < timestep_double"
      and e1: "\<bar>accumulator ph + sum_list dts1 - real n1 * timestep_double - accumulator ph1\<bar>
                \<le> (real n1 + real (length dts1)) / 2 ^ 37"
      by blast
    from updates_double_steps [OF run2] assms(1,2,4) T2 obtain n2 where
      n2: "fixedSteps n2 player world = Inr p2"
      and a2: "0 \<le> accumulator ph2" "accumulator ph2 < timestep_double"
      and e2: "\<bar>accumulator ph + sum_list dts2 - real n2 * timestep_double - accumulator ph2\<bar>
                \<le> (real n2 + real (length dts2)) / 2 ^ 37"
      by blast
    note e1' = e1 [unfolded assms(5)] and e2' = e2 [unfolded assms(6)]
    from e1' steps_bound [OF a1(1) e1' s assms(8)]
    have b1: "\<bar>accumulator ph + T - real n1 * timestep_double - accumulator ph1\<bar> \<le> 1 / 1024"
      by (rule order_trans)
    from e2' steps_bound [OF a2(1) e2' s assms(9)]
    have b2: "\<bar>accumulator ph + T - real n2 * timestep_double - accumulator ph2\<bar> \<le> 1 / 1024"
      by (rule order_trans)
    have "\<bar>int n1 - int n2\<bar> \<le> 1"
      by (rule counts_close [OF a1 a2 b1 b2])
    moreover have "n1 = n2 \<longrightarrow> p1 = p2"
      using n1 n2 by auto
    ultimately show ?thesis
      using n1 n2 e1' e2' by blast
  qed
  moreover have "(\<exists>ph1 p1. updates_double dts1 ph player world = Some (Inr (ph1, p1))) \<and>
            (\<exists>ph2 p2. updates_double dts2 ph player world = Some (Inr (ph2, p2)))"
    if "well_formed world"
    using updates_double_returns [OF that assms(1,2,3) T1]
      updates_double_returns [OF that assms(1,2,4) T2] by blast
  ultimately show ?thesis
    by blast
qed

theorem updates_double_fixed_steps_witness:
  "(\<exists>ph1 p1. updates_double [to_double (9 / 500), to_double (9 / 500)] \<lparr>accumulator = 0\<rparr>
       scenarioPlayer scenarioWorld = Some (Inr (ph1, p1))) \<and>
   (\<exists>n1 n2.
     fixedSteps n1 scenarioPlayer scenarioWorld
       = Inr (scenarioPlayer\<lparr>velocity := Vector3 0 (- (128 / 125)) 0\<rparr>) \<and>
     fixedSteps n2 scenarioPlayer scenarioWorld
       = Inr (scenarioPlayer\<lparr>velocity := Vector3 0 (- (144 / 125)) 0\<rparr>) \<and>
     \<bar>int n1 - int n2\<bar> \<le> 1)"
proof -
  have a: "0 \<le> accumulator \<lparr>accumulator = 0\<rparr>" "accumulator \<lparr>accumulator = 0\<rparr> < timestep_double"
    "\<forall>dt\<in>set [to_double (9 / 500), to_double (9 / 500)]. 0 \<le> dt"
    "\<forall>dt\<in>set [to_double (9 / 250)]. 0 \<le> dt"
    "sum_list [to_double (9 / 500), to_double (9 / 500)] = to_double (9 / 250)"
    "sum_list [to_double (9 / 250)] = to_double (9 / 250)"
    "to_double (9 / 250) \<le> 2 ^ 14"
    "length [to_double (9 / 500), to_double (9 / 500)] \<le> 2 ^ 20"
    "length [to_double (9 / 250)] \<le> 2 ^ 20"
    by (simp_all add: timestep_double_value to_double_range round_half_even_def)
  note runs = updates_double_fixed_steps [OF a, of scenarioWorld scenarioPlayer]
  from runs well_formed_scenarioWorld have
    "\<exists>ph1 p1. updates_double [to_double (9 / 500), to_double (9 / 500)] \<lparr>accumulator = 0\<rparr>
       scenarioPlayer scenarioWorld = Some (Inr (ph1, p1))"
    by blast
  moreover from runs two_frames one_frame have
    "\<exists>n1 n2.
     fixedSteps n1 scenarioPlayer scenarioWorld
       = Inr (scenarioPlayer\<lparr>velocity := Vector3 0 (- (128 / 125)) 0\<rparr>) \<and>
     fixedSteps n2 scenarioPlayer scenarioWorld
       = Inr (scenarioPlayer\<lparr>velocity := Vector3 0 (- (144 / 125)) 0\<rparr>) \<and>
     \<bar>int n1 - int n2\<bar> \<le> 1"
    by blast
  ultimately show ?thesis
    by blast
qed

section \<open>A record with overlap zero\<close>

lemma round_half_evenI:
  assumes "of_int m - 1 / 2 < y" and "y < of_int m + 1 / 2"
  shows "round_half_even y = m"
proof (cases "of_int m \<le> y")
  case True
  with assms(2) have "\<lfloor>y\<rfloor> = m"
    by (intro floor_unique) simp_all
  with assms(2) show ?thesis
    by (simp add: round_half_even_def)
next
  case False
  with assms(1) have "\<lfloor>y\<rfloor> = m - 1"
    by (intro floor_unique) simp_all
  with assms(1) False show ?thesis
    by (simp add: round_half_even_def)
qed

text \<open>The rounding of a number between \<open>2\<^sup>-\<^sup>4\<close> and \<open>2\<close>, of either sign, binade by binade.\<close>

lemma to_double_unit:
  assumes "1 / 16 \<le> \<bar>x\<bar>" and "\<bar>x\<bar> < 2"
  shows "to_double x =
     (if \<bar>x\<bar> < 1 / 8 then of_int (round_half_even (x * 2 ^ 56)) / 2 ^ 56
      else if \<bar>x\<bar> < 1 / 4 then of_int (round_half_even (x * 2 ^ 55)) / 2 ^ 55
      else if \<bar>x\<bar> < 1 / 2 then of_int (round_half_even (x * 2 ^ 54)) / 2 ^ 54
      else if \<bar>x\<bar> < 1 then of_int (round_half_even (x * 2 ^ 53)) / 2 ^ 53
      else of_int (round_half_even (x * 2 ^ 52)) / 2 ^ 52)"
proof -
  consider "\<bar>x\<bar> < 1 / 8" | "1 / 8 \<le> \<bar>x\<bar>" "\<bar>x\<bar> < 1 / 4" | "1 / 4 \<le> \<bar>x\<bar>" "\<bar>x\<bar> < 1 / 2"
    | "1 / 2 \<le> \<bar>x\<bar>" "\<bar>x\<bar> < 1" | "1 \<le> \<bar>x\<bar>"
    by linarith
  then show ?thesis
  proof cases
    case 1
    with assms have "to_double x = of_int (round_half_even (x / 2 powi (- 4 - 52))) * 2 powi (- 4 - 52)"
      by (intro to_doubleI) simp_all
    with 1 show ?thesis by (simp add: field_simps)
  next
    case 2
    then have "to_double x = of_int (round_half_even (x / 2 powi (- 3 - 52))) * 2 powi (- 3 - 52)"
      by (intro to_doubleI) simp_all
    with 2 show ?thesis by (simp add: field_simps)
  next
    case 3
    then have "to_double x = of_int (round_half_even (x / 2 powi (- 2 - 52))) * 2 powi (- 2 - 52)"
      by (intro to_doubleI) simp_all
    with 3 show ?thesis by (simp add: field_simps)
  next
    case 4
    then have "to_double x = of_int (round_half_even (x / 2 powi (- 1 - 52))) * 2 powi (- 1 - 52)"
      by (intro to_doubleI) simp_all
    with 4 show ?thesis by (simp add: field_simps)
  next
    case 5
    with assms have "to_double x = of_int (round_half_even (x / 2 powi (0 - 52))) * 2 powi (0 - 52)"
      by (intro to_doubleI) simp_all
    with 5 show ?thesis by (simp add: field_simps)
  qed
qed

lemma grazing_position:
  "to_double (6073491608790096 / 10 ^ 16) = 2735257454618491 / 2 ^ 52"
  "to_double (19 / 10) = 4278419646001971 / 2 ^ 51"
  "to_double (885326040722104 / 10 ^ 15) = 498394253387183 / 2 ^ 49"
  "to_double (2 / 5) = 3602879701896397 / 2 ^ 53"
  "to_double (9 / 5) = 8106479329266893 / 2 ^ 52"
  by (simp_all add: to_double_unit round_half_even_def)

text \<open>
  The rounded sum of the squares is the double \<open>0.16\<close>, and its root rounds to the double
  \<open>0.4\<close>: the exact root lies less than half a unit in the last place away from it.
\<close>

lemma sqrt_grazing:
  "to_double (sqrt (5764607523034235 / 2 ^ 55)) = 3602879701896397 / 2 ^ 53"
proof -
  let ?r = "5764607523034235 / 2 ^ 55 :: real"
  have lo: "(of_int 7205759403792794 - 1 / 2) / 2 ^ 54 < sqrt ?r"
    by (rule real_less_rsqrt) (simp add: power2_eq_square)
  have hi: "sqrt ?r < (of_int 7205759403792794 + 1 / 2) / 2 ^ 54"
    by (rule real_less_lsqrt) (simp_all add: power2_eq_square)
  from lo hi have "2 powi (- 2) \<le> \<bar>sqrt ?r\<bar>" "\<bar>sqrt ?r\<bar> < 2 powi (- 2 + 1)"
    by simp_all
  then have "to_double (sqrt ?r)
      = of_int (round_half_even (sqrt ?r / 2 powi (- 2 - 52))) * 2 powi (- 2 - 52)"
    by (intro to_doubleI) simp_all
  moreover have "round_half_even (sqrt ?r / 2 powi (- 2 - 52)) = 7205759403792794"
  proof (rule round_half_evenI)
    from lo show "of_int 7205759403792794 - 1 / 2 < sqrt ?r / 2 powi (- 2 - 52)"
      by (simp add: field_simps)
    from hi show "sqrt ?r / 2 powi (- 2 - 52) < of_int 7205759403792794 + 1 / 2"
      by (simp add: field_simps)
  qed
  ultimately show ?thesis
    by simp
qed

lemma sqrt_grazing_numeral:
  "to_double (sqrt (5764607523034235 / 36028797018963968))
     = 3602879701896397 / 9007199254740992"
  using sqrt_grazing by simp

text \<open>The reciprocal of the length \<open>0.4\<close> of the horizontal offset rounds to \<open>2.5\<close>.\<close>

lemma reciprocal_grazing: "to_double (1 / (3602879701896397 / 2 ^ 53)) = 5 / 2"
proof -
  let ?x = "1 / (3602879701896397 / 2 ^ 53) :: real"
  have "2 powi 1 \<le> \<bar>?x\<bar>" "\<bar>?x\<bar> < 2 powi (1 + 1)"
    by simp_all
  then have "to_double ?x = of_int (round_half_even (?x / 2 powi (1 - 52))) * 2 powi (1 - 52)"
    by (intro to_doubleI) simp_all
  moreover have "round_half_even (?x / 2 powi (1 - 52)) = 5629499534213120"
    by (rule round_half_evenI) (simp_all add: field_simps)
  ultimately show ?thesis
    by simp
qed

lemma reciprocal_grazing_numeral:
  "to_double (9007199254740992 / 3602879701896397) = 5 / 2"
  using reciprocal_grazing by simp

lemmas grazing_eval = grazingPlayer_def scenarioPlayer_def grazing_position to_double_unit
  to_double_range to_double_zero round_half_even_def sqrt_grazing_numeral
  reciprocal_grazing_numeral

text \<open>
  C7: the claim requires every emitted record to have \<open>overlap > 0\<close>. In the arithmetic of
  the code it does not hold: for the grazing actor the containment test passes, because
  the rounded sum of squares \<open>0.16\<close> is less than the rounded square of the radius
  \<open>0.16000000000000003\<close>, the horizontal axis is selected, and the record is emitted with
  overlap \<open>radius - Math.sqrt(0.16) = 0.4 - 0.4 = 0\<close>. Its normal is
  \<open>(0.26837290219752397, 0, 0.9633151018052599)\<close>, and the player is left as it was.
\<close>

theorem narrowPhase_double_zero_overlap:
  "narrowPhase_double [Point3D 0 1 0] grazingPlayer =
     ([\<lparr>block = Point3D 0 1 0,
        contactPoint = Point3D (1 / 2) (9007199254740991 / 2 ^ 53) (1 / 2),
        normal = Vector3 (2417288204666215 / 2 ^ 53) 0 (1084596383382635 / 2 ^ 50),
        overlap = 0\<rparr>],
      grazingPlayer)"
  by (simp add: narrowPhase_double_def narrowBody_double_def Let_def
      pointInPlayerBoundingCylinder_double_def normalize_double_def vlength_double_def
      grazing_eval)

section \<open>The actor of the scenario never lands\<close>


end
